theory Spec2Isabelle
  imports Main "HOL-Library.Sublist"
begin

section \<open>Data model of helper.py\<close>

text \<open>
  The extractors of \<^verbatim>\<open>helper.py\<close> read parsed JSON: dictionaries whose keys may be
  absent. Every dictionary is a record whose fields are options (\<open>None\<close>: the key is
  absent); \<open>d[k]\<close> on an absent key raises \<^verbatim>\<open>KeyError\<close>, \<open>d.get(k, v)\<close> returns \<open>v\<close>.
  A character of a \<open>string\<close> stands for one character of a Python \<^verbatim>\<open>str\<close>.
\<close>

datatype py_error = KeyError string | IndexError

record message =
  msg_user :: "string option"
  msg_ts :: "string option"
  msg_text :: "string option"
  msg_contains_code :: "bool option"

record channel =
  channel_id :: "string option"
  messages :: "message list option"

record slack_data =
  channels :: "channel list option"

record commit =
  author :: "string option"
  sha :: "string option"
  date :: "string option"
  commit_message :: "string option"
  files_changed :: "string list option"
  lines_added :: "int option"
  lines_deleted :: "int option"
  area :: "string option"
  codediff :: "string option"

record github_data =
  commits :: "commit list option"

record transcript_line =
  line_user :: "string option"
  line_text :: "string option"

record meeting =
  meeting_id :: "string option"
  transcript :: "transcript_line list option"

text \<open>The dictionaries the extractors build. The keys of the source are the field names
  (after the prefix); the two shapes of a kudos dictionary, told apart by the key
  \<^verbatim>\<open>type\<close> (\<^verbatim>\<open>slack_ack\<close>, \<^verbatim>\<open>github_usage\<close>), are the two constructors of \<open>kudos\<close>.\<close>

record user_message =
  um_channel :: string
  um_timestamp :: string
  um_text :: string
  um_contains_code :: bool

record received_code =
  rc_channel :: string
  rc_from_user :: string
  rc_code_snippet :: string
  rc_acknowledged_by_user :: string

record flow_entry =
  fe_user :: string
  fe_text :: string

record context_flow =
  cf_meeting_id :: "string option"
  cf_flow :: "flow_entry list"

datatype kudos =
  Slack_ack (from_user: string) (to_user: string) (kchannel: string)
    (code_snippet: string) (ack_text: string)
| Github_usage (from_user: string) (to_user: string) (kchannel: string)
    (code_snippet: string) (commit_sha: string)

text \<open>The value under the key \<^verbatim>\<open>type\<close>.\<close>

fun kudos_type :: "kudos \<Rightarrow> string" where
  "kudos_type (Slack_ack f t c s a) = ''slack_ack''"
| "kudos_type (Github_usage f t c s h) = ''github_usage''"

text \<open>The result of \<^verbatim>\<open>get_user_github_commits\<close> is kept as a dictionary, a list of
  key and value pairs, since the keys it is built with matter.\<close>

datatype jval = JStr string | JInt int | JStrs "string list"

type_synonym pydict = "(string \<times> jval) list"

section \<open>Python primitives\<close>

text \<open>\<open>d.get(k, default)\<close>.\<close>

definition get_or :: "'a option \<Rightarrow> 'a \<Rightarrow> 'a" where
  "get_or v d = (case v of None \<Rightarrow> d | Some x \<Rightarrow> x)"

text \<open>\<open>d[k]\<close>, followed by the rest of the computation: \<^verbatim>\<open>KeyError\<close> on an absent key.\<close>

definition req :: "string \<Rightarrow> 'a option \<Rightarrow> ('a \<Rightarrow> py_error + 'b) \<Rightarrow> py_error + 'b" where
  "req k v f = (case v of None \<Rightarrow> Inl (KeyError k) | Some x \<Rightarrow> f x)"

text \<open>Two statements in sequence, each appending to the result list or raising.\<close>

fun and_then :: "py_error + 'b list \<Rightarrow> py_error + 'b list \<Rightarrow> py_error + 'b list" where
  "and_then (Inl e) r = Inl e"
| "and_then (Inr ys) (Inl e) = Inl e"
| "and_then (Inr ys) (Inr zs) = Inr (ys @ zs)"

text \<open>\<^verbatim>\<open>for x in xs: body\<close>, where the body appends to the result list or raises: the
  first exception ends the loop and the function.\<close>

fun collect :: "('a \<Rightarrow> py_error + 'b list) \<Rightarrow> 'a list \<Rightarrow> py_error + 'b list" where
  "collect f [] = Inr []"
| "collect f (x # xs) = and_then (f x) (collect f xs)"

text \<open>\<open>xs[lo:hi]\<close>: a negative bound counts from the end, and both are clamped.\<close>

definition py_bound :: "int \<Rightarrow> int \<Rightarrow> int" where
  "py_bound n i = (if i < 0 then max 0 (i + n) else min i n)"

definition py_slice :: "'a list \<Rightarrow> int \<Rightarrow> int \<Rightarrow> 'a list" where
  "py_slice xs lo hi =
     (let n = int (length xs); a = py_bound n lo; b = py_bound n hi
      in take (nat (b - a)) (drop (nat a) xs))"

text \<open>\<open>xs[i]\<close>: a negative index counts from the end, \<^verbatim>\<open>IndexError\<close> out of range.\<close>

definition py_nth :: "'a list \<Rightarrow> int \<Rightarrow> py_error + 'a" where
  "py_nth xs i =
     (let n = int (length xs)
      in if 0 \<le> i \<and> i < n then Inr (xs ! nat i)
         else if - n \<le> i \<and> i < 0 then Inr (xs ! nat (n + i))
         else Inl IndexError)"

text \<open>\<open>enumerate(xs)\<close> is \<^const>\<open>List.enumerate\<close> from 0; \<open>a in b\<close> on strings is
  \<^const>\<open>sublist\<close>; \<open>s[:30]\<close> is \<open>take 30 s\<close>.\<close>

section \<open>get_user_slack_messages\<close>

definition user_message_of :: "string \<Rightarrow> channel \<Rightarrow> message \<Rightarrow> py_error + user_message list" where
  "user_message_of user_id ch msg =
     (if msg_user msg = Some user_id then
        req ''channel_id'' (channel_id ch) (\<lambda>cid.
        req ''ts'' (msg_ts msg) (\<lambda>t.
        req ''text'' (msg_text msg) (\<lambda>s.
          Inr [\<lparr>um_channel = cid, um_timestamp = t, um_text = s,
                um_contains_code = get_or (msg_contains_code msg) False\<rparr>])))
      else Inr [])"

definition get_user_slack_messages :: "slack_data \<Rightarrow> string \<Rightarrow> py_error + user_message list" where
  "get_user_slack_messages sd user_id =
     collect (\<lambda>ch. collect (user_message_of user_id ch) (get_or (messages ch) []))
       (get_or (channels sd) [])"

section \<open>get_user_github_commits\<close>

definition user_commit_of :: "string \<Rightarrow> commit \<Rightarrow> py_error + pydict list" where
  "user_commit_of user_id c =
     (if author c = Some user_id then
        req ''sha'' (sha c) (\<lambda>v1.
        req ''date'' (date c) (\<lambda>v2.
        req ''commit_message'' (commit_message c) (\<lambda>v3.
        req ''files_changed'' (files_changed c) (\<lambda>v4.
        req ''lines_added'' (lines_added c) (\<lambda>v5.
        req ''lines_deleted'' (lines_deleted c) (\<lambda>v6.
        req ''area'' (area c) (\<lambda>v7.
        req ''codediff'' (codediff c) (\<lambda>v8.
          Inr [[(''sha'', JStr v1), (''date'', JStr v2), (''message'', JStr v3),
                (''files_changed'', JStrs v4), (''lines_added'', JInt v5),
                (''lines_deleted'', JInt v6), (''area'', JStr v7),
                (''codediff'', JStr v8)]]))))))))
      else Inr [])"

definition get_user_github_commits :: "github_data \<Rightarrow> string \<Rightarrow> py_error + pydict list" where
  "get_user_github_commits gd user_id =
     collect (user_commit_of user_id) (get_or (commits gd) [])"

section \<open>get_user_received_code\<close>

text \<open>The inner loop over \<open>messages[i + 1:i + 4]\<close>, left by \<^verbatim>\<open>break\<close> at the first
  follow-up of the user.\<close>

fun scan_follow_ups ::
  "string \<Rightarrow> channel \<Rightarrow> message \<Rightarrow> message list \<Rightarrow> py_error + received_code list" where
  "scan_follow_ups user_id ch msg [] = Inr []"
| "scan_follow_ups user_id ch msg (follow_up # rest) =
     (if msg_user follow_up = Some user_id then
        req ''channel_id'' (channel_id ch) (\<lambda>cid.
        req ''user'' (msg_user msg) (\<lambda>u.
        req ''text'' (msg_text msg) (\<lambda>s.
        req ''text'' (msg_text follow_up) (\<lambda>a.
          Inr [\<lparr>rc_channel = cid, rc_from_user = u, rc_code_snippet = s,
                rc_acknowledged_by_user = a\<rparr>]))))
      else scan_follow_ups user_id ch msg rest)"

definition received_of ::
  "string \<Rightarrow> channel \<Rightarrow> message list \<Rightarrow> nat \<times> message \<Rightarrow> py_error + received_code list" where
  "received_of user_id ch msgs im =
     (case im of (i, msg) \<Rightarrow>
        if get_or (msg_contains_code msg) False \<and> msg_user msg \<noteq> Some user_id then
          scan_follow_ups user_id ch msg (py_slice msgs (int i + 1) (int i + 4))
        else Inr [])"

definition get_user_received_code :: "slack_data \<Rightarrow> string \<Rightarrow> py_error + received_code list" where
  "get_user_received_code sd user_id =
     collect (\<lambda>ch. let msgs = get_or (messages ch) []
                   in collect (received_of user_id ch msgs) (List.enumerate 0 msgs))
       (get_or (channels sd) [])"

section \<open>get_user_meeting_transcripts_with_context\<close>

text \<open>\<open>range(start, end)\<close> around the index of one line of the user.\<close>

definition context_range :: "transcript_line list \<Rightarrow> int \<Rightarrow> nat \<Rightarrow> int list" where
  "context_range tr context_window idx =
     (let start = max 0 (int idx - context_window);
          end = min (int (length tr)) (int idx + context_window + 1)
      in [start..end - 1])"

definition included_indices :: "transcript_line list \<Rightarrow> string \<Rightarrow> int \<Rightarrow> int set" where
  "included_indices tr user_id context_window =
     fold (\<lambda>il acc. case il of (idx, line) \<Rightarrow>
             if line_user line = Some user_id
             then fold insert (context_range tr context_window idx) acc
             else acc)
       (List.enumerate 0 tr) {}"

definition flow_entry_of :: "transcript_line list \<Rightarrow> int \<Rightarrow> py_error + flow_entry list" where
  "flow_entry_of tr i =
     (case py_nth tr i of
        Inl e \<Rightarrow> Inl e
      | Inr line \<Rightarrow>
          req ''user'' (line_user line) (\<lambda>u.
          req ''text'' (line_text line) (\<lambda>t.
            Inr [\<lparr>fe_user = u, fe_text = t\<rparr>])))"

definition meeting_flow :: "string \<Rightarrow> int \<Rightarrow> meeting \<Rightarrow> py_error + context_flow list" where
  "meeting_flow user_id context_window m =
     (let tr = get_or (transcript m) [];
          inc = included_indices tr user_id context_window
      in if inc \<noteq> {} then
           (case collect (flow_entry_of tr) (sorted_list_of_set inc) of
              Inl e \<Rightarrow> Inl e
            | Inr fl \<Rightarrow> Inr [\<lparr>cf_meeting_id = meeting_id m, cf_flow = fl\<rparr>])
         else Inr [])"

definition get_user_meeting_transcripts_with_context ::
  "meeting list \<Rightarrow> string \<Rightarrow> int \<Rightarrow> py_error + context_flow list" where
  "get_user_meeting_transcripts_with_context transcripts_data user_id context_window =
     collect (meeting_flow user_id context_window) transcripts_data"

section \<open>extract_peer_kudos\<close>

definition ack_of :: "string \<Rightarrow> channel \<Rightarrow> string \<Rightarrow> message \<Rightarrow> py_error + kudos list" where
  "ack_of user_id ch snippet follow_up =
     req ''user'' (msg_user follow_up) (\<lambda>u.
       if u \<noteq> user_id then
         req ''channel_id'' (channel_id ch) (\<lambda>cid.
         req ''text'' (msg_text follow_up) (\<lambda>a.
           Inr [Slack_ack user_id u cid snippet a]))
       else Inr [])"

definition commit_text :: "commit \<Rightarrow> string" where
  "commit_text c = get_or (codediff c) '''' @ '' '' @ get_or (commit_message c) ''''"

definition usage_of :: "string \<Rightarrow> string \<Rightarrow> commit \<Rightarrow> py_error + kudos list" where
  "usage_of user_id snippet c =
     (if author c \<noteq> Some user_id then
        if sublist (take 30 snippet) (commit_text c) then
          req ''author'' (author c) (\<lambda>a.
          req ''sha'' (sha c) (\<lambda>h.
            Inr [Github_usage user_id a ''github'' snippet h]))
        else Inr []
      else Inr [])"

definition kudos_of ::
  "string \<Rightarrow> int \<Rightarrow> channel \<Rightarrow> commit list \<Rightarrow> message list \<Rightarrow> nat \<times> message
     \<Rightarrow> py_error + kudos list" where
  "kudos_of user_id context_window ch cs msgs im =
     (case im of (idx, msg) \<Rightarrow>
        if msg_user msg = Some user_id \<and> get_or (msg_contains_code msg) False then
          req ''text'' (msg_text msg) (\<lambda>snippet.
            and_then
              (collect (ack_of user_id ch snippet)
                 (py_slice msgs (int idx + 1) (int idx + 1 + context_window)))
              (collect (usage_of user_id snippet) cs))
        else Inr [])"

definition extract_peer_kudos ::
  "slack_data \<Rightarrow> github_data \<Rightarrow> string \<Rightarrow> int \<Rightarrow> py_error + kudos list" where
  "extract_peer_kudos sd gd user_id context_window =
     collect (\<lambda>ch. let msgs = get_or (messages ch) []
                   in collect (kudos_of user_id context_window ch (get_or (commits gd) []) msgs)
                        (List.enumerate 0 msgs))
       (get_or (channels sd) [])"

section \<open>Notions of the statements\<close>

subsection \<open>The indices of a flow\<close>

text \<open>The claim's words: the union, over every index at which the user speaks, of the
  indices within the radius of it, clamped to the indices of the transcript.\<close>

definition context_union :: "transcript_line list \<Rightarrow> string \<Rightarrow> int \<Rightarrow> int set" where
  "context_union tr user_id radius =
     (\<Union>i\<in>{i \<in> {0..<length tr}. line_user (tr ! i) = Some user_id}.
        {int i - radius..int i + radius} \<inter> {0..<int (length tr)})"

text \<open>The indices a flow is built from: \<open>sorted(included_indices)\<close>.\<close>

definition flow_indices :: "transcript_line list \<Rightarrow> string \<Rightarrow> int \<Rightarrow> int list" where
  "flow_indices tr user_id context_window =
     sorted_list_of_set (included_indices tr user_id context_window)"

subsection \<open>A commit as a dictionary\<close>

text \<open>The dictionary a commit record stands for: its keys that are present, with their
  values.\<close>

definition commit_items :: "commit \<Rightarrow> pydict" where
  "commit_items c = List.map_filter (\<lambda>kv. map_option (Pair (fst kv)) (snd kv))
     [(''author'', map_option JStr (author c)), (''sha'', map_option JStr (sha c)),
      (''date'', map_option JStr (date c)),
      (''commit_message'', map_option JStr (commit_message c)),
      (''files_changed'', map_option JStrs (files_changed c)),
      (''lines_added'', map_option JInt (lines_added c)),
      (''lines_deleted'', map_option JInt (lines_deleted c)),
      (''area'', map_option JStr (area c)), (''codediff'', map_option JStr (codediff c))]"

section \<open>Example inputs\<close>

definition ex_msg :: "string \<Rightarrow> string \<Rightarrow> bool option \<Rightarrow> message" where
  "ex_msg u t cc = \<lparr>msg_user = Some u, msg_ts = Some ''0'', msg_text = Some t,
     msg_contains_code = cc\<rparr>"

definition ex_commit :: "string \<Rightarrow> string \<Rightarrow> string \<Rightarrow> string \<Rightarrow> commit" where
  "ex_commit a h d m = \<lparr>author = Some a, sha = Some h, date = Some ''2024-01-01'',
     commit_message = Some m, files_changed = Some [''a.py''], lines_added = Some 1,
     lines_deleted = Some 0, area = Some ''core'', codediff = Some d\<rparr>"

definition ex_channel :: "message list \<Rightarrow> channel" where
  "ex_channel ms = \<lparr>channel_id = Some ''general'', messages = Some ms\<rparr>"

definition ex_slack :: "message list \<Rightarrow> slack_data" where
  "ex_slack ms = \<lparr>channels = Some [ex_channel ms]\<rparr>"

definition ex_github :: "commit list \<Rightarrow> github_data" where
  "ex_github cs = \<lparr>commits = Some cs\<rparr>"

definition ex_thread :: "message list" where
  "ex_thread = [ex_msg ''A'' ''snip'' (Some True), ex_msg ''B'' ''nice'' None,
     ex_msg ''A'' ''more'' None, ex_msg ''C'' ''thanks'' (Some False), ex_msg ''D'' ''late'' None]"

definition ex_commits3 :: "commit list" where
  "ex_commits3 = [ex_commit ''B'' ''s1'' ''x = foo()'' ''m1'', ex_commit ''A'' ''s2'' ''d2'' ''m2'',
     ex_commit ''C'' ''s3'' ''d3'' ''m3'']"

definition ex_general :: "message list" where
  "ex_general = [ex_msg ''A'' ''hi'' None, ex_msg ''B'' ''```for x in y```'' (Some True),
     ex_msg ''A'' ''nice, thanks'' None]"

subsection \<open>A meeting\<close>

definition ex_line :: "string \<Rightarrow> string \<Rightarrow> transcript_line" where
  "ex_line u t = \<lparr>line_user = Some u, line_text = Some t\<rparr>"

definition ex_meeting :: "meeting" where
  "ex_meeting = \<lparr>meeting_id = Some ''m1'', transcript = Some
     [ex_line ''B'' ''t0'', ex_line ''C'' ''t1'', ex_line ''A'' ''t2'', ex_line ''B'' ''t3'',
      ex_line ''C'' ''t4'']\<rparr>"

subsection \<open>Records that lack a field\<close>

definition ex_bad_slack :: slack_data where
  "ex_bad_slack = ex_slack [ex_msg ''B'' ''code'' (Some True),
     \<lparr>msg_user = Some ''A'', msg_ts = Some ''1'', msg_text = None,
      msg_contains_code = Some True\<rparr>]"

definition ex_bad_github :: github_data where
  "ex_bad_github = ex_github [(ex_commit ''A'' ''s1'' ''d1'' ''m1'')\<lparr>date := None\<rparr>]"

definition ex_bad_meeting :: meeting where
  "ex_bad_meeting = \<lparr>meeting_id = Some ''m2'', transcript = Some
     [\<lparr>line_user = Some ''A'', line_text = None\<rparr>]\<rparr>"

definition ex_anon_meeting :: meeting where
  "ex_anon_meeting = \<lparr>meeting_id = None, transcript = Some [ex_line ''A'' ''hi'']\<rparr>"

section \<open>Facts about the primitives\<close>

lemma get_or_simps [simp]: "get_or (Some x) d = x" "get_or None d = d"
  by (simp_all add: get_or_def)

lemma py_slice_past_end: "int (length xs) \<le> lo \<Longrightarrow> py_slice xs lo hi = []"
  by (simp add: py_slice_def py_bound_def Let_def)

section \<open>The literal kudos scenario\<close>

text \<open>
  C7. User \<open>A\<close> shares the code-flagged snippet \<open>def foo(): return 1\<close> as the only message
  of a channel, so it has no follow-up, and the commit collection holds one commit, by \<open>B\<close>,
  whose diff contains that text (anything before and after it, any commit message or none):
  \<^verbatim>\<open>extract_peer_kudos\<close> returns exactly one fact, of type \<^verbatim>\<open>github_usage\<close>, and so no
  fact of type \<^verbatim>\<open>slack_ack\<close>, whatever the window. The same holds of what the message
  contributes when it is the last message of a channel, whatever comes before it.
\<close>

theorem kudos_literal_scenario:
  "extract_peer_kudos
     \<lparr>channels = Some [\<lparr>channel_id = cid, messages = Some
        [\<lparr>msg_user = Some ''A'', msg_ts = t, msg_text = Some ''def foo(): return 1'',
          msg_contains_code = Some True\<rparr>]\<rparr>]\<rparr>
     \<lparr>commits = Some [\<lparr>author = Some ''B'', sha = Some h, date = d, commit_message = cm,
        files_changed = fc, lines_added = la, lines_deleted = ld, area = ar,
        codediff = Some (pre @ ''def foo(): return 1'' @ post)\<rparr>]\<rparr>
     ''A'' context_window
   = Inr [Github_usage ''A'' ''B'' ''github'' ''def foo(): return 1'' h] \<and>
   kudos_of ''A'' context_window ch
     [\<lparr>author = Some ''B'', sha = Some h, date = d, commit_message = cm,
        files_changed = fc, lines_added = la, lines_deleted = ld, area = ar,
        codediff = Some (pre @ ''def foo(): return 1'' @ post)\<rparr>]
     (earlier @
        [\<lparr>msg_user = Some ''A'', msg_ts = t, msg_text = Some ''def foo(): return 1'',
          msg_contains_code = Some True\<rparr>])
     (length earlier,
      \<lparr>msg_user = Some ''A'', msg_ts = t, msg_text = Some ''def foo(): return 1'',
        msg_contains_code = Some True\<rparr>)
   = Inr [Github_usage ''A'' ''B'' ''github'' ''def foo(): return 1'' h]"
proof -
  have sub: "sublist ''def foo(): return 1''
      ((pre @ ''def foo(): return 1'' @ post) @ '' '' @ get_or cm '''')"
    unfolding sublist_def by (intro exI [of _ pre] exI [of _ "post @ '' '' @ get_or cm ''''"]) simp
  show ?thesis
    using sub
    by (simp add: extract_peer_kudos_def kudos_of_def usage_of_def commit_text_def
        get_or_def req_def enumerate_eq_zip py_slice_past_end)
qed

section \<open>Facts about sequencing and loops\<close>

lemma and_then_Inr_iff:
  "and_then a b = Inr ys \<longleftrightarrow> (\<exists>u v. a = Inr u \<and> b = Inr v \<and> ys = u @ v)"
  by (cases a; cases b) auto

lemma isl_and_then: "isl (and_then a b) \<longleftrightarrow> isl a \<or> isl b"
  by (cases a; cases b) auto

lemma req_Inr_iff: "req k v f = Inr y \<longleftrightarrow> (\<exists>x. v = Some x \<and> f x = Inr y)"
  by (cases v) (auto simp: req_def)

lemma isl_req: "isl (req k v f) \<longleftrightarrow> v = None \<or> (\<exists>x. v = Some x \<and> isl (f x))"
  by (cases v) (auto simp: req_def)

text \<open>A loop raises exactly when the body raises at some element.\<close>

lemma isl_collect: "isl (collect f xs) \<longleftrightarrow> (\<exists>x\<in>set xs. isl (f x))"
  by (induction xs) (auto simp: isl_and_then)

text \<open>A loop that returns has appended, in order, what the body appends at each element.\<close>

lemma collect_Inr_iff:
  "collect f xs = Inr ys \<longleftrightarrow>
     (\<forall>x\<in>set xs. \<not> isl (f x)) \<and> ys = concat (map (\<lambda>x. projr (f x)) xs)"
proof (induction xs arbitrary: ys)
  case Nil
  show ?case by auto
next
  case (Cons x xs)
  show ?case
  proof (cases "f x")
    case (Inl e)
    then show ?thesis by simp
  next
    case fx: (Inr zs)
    show ?thesis
    proof (cases "collect f xs")
      case (Inl e)
      then have "isl (collect f xs)" by simp
      then have "\<exists>y\<in>set xs. isl (f y)" by (simp add: isl_collect)
      with Inl fx show ?thesis by auto
    next
      case (Inr ws)
      with Cons.IH [of ws] fx show ?thesis by auto
    qed
  qed
qed

lemma collect_Inr_elem:
  assumes "collect f xs = Inr ys" and "x \<in> set xs"
  shows "\<exists>zs. f x = Inr zs \<and> set zs \<subseteq> set ys"
proof -
  from assms have "\<not> isl (f x)" and ys: "ys = concat (map (\<lambda>x. projr (f x)) xs)"
    by (auto simp: collect_Inr_iff)
  then obtain zs where zs: "f x = Inr zs" by (cases "f x") auto
  with ys assms(2) have "set zs \<subseteq> set ys" by force
  with zs show ?thesis by blast
qed

lemma collect_Inr_origin:
  assumes "collect f xs = Inr ys" and "y \<in> set ys"
  shows "\<exists>x\<in>set xs. \<exists>zs. f x = Inr zs \<and> y \<in> set zs"
proof -
  from assms obtain x where x: "x \<in> set xs" "y \<in> set (projr (f x))"
    by (auto simp: collect_Inr_iff)
  from assms(1) x(1) have "\<not> isl (f x)" by (simp add: collect_Inr_iff)
  then obtain zs where "f x = Inr zs" by (cases "f x") auto
  with x show ?thesis by auto
qed

lemma in_enumerate0: "(i, x) \<in> set (List.enumerate 0 xs) \<longleftrightarrow> i < length xs \<and> xs ! i = x"
  by (auto simp: in_set_enumerate_eq)

section \<open>Where the facts of extract_peer_kudos come from\<close>

lemma ack_of_Inr:
  assumes "ack_of user_id ch snippet f = Inr ks"
  shows "\<exists>u. msg_user f = Some u \<and>
    (if u \<noteq> user_id
     then \<exists>cid a. channel_id ch = Some cid \<and> msg_text f = Some a \<and>
            ks = [Slack_ack user_id u cid snippet a]
     else ks = [])"
  using assms by (auto simp: ack_of_def req_Inr_iff split: if_splits)

lemma usage_of_Inr:
  assumes "usage_of user_id snippet c = Inr ks"
  shows "if author c \<noteq> Some user_id \<and> sublist (take 30 snippet) (commit_text c)
     then \<exists>a h. author c = Some a \<and> sha c = Some h \<and>
            ks = [Github_usage user_id a ''github'' snippet h]
     else ks = []"
  using assms by (auto simp: usage_of_def req_Inr_iff split: if_splits)

text \<open>The facts a qualifying message contributes: its acknowledgments, then its usages.\<close>

lemma kudos_of_Inr:
  assumes "kudos_of user_id context_window ch cs msgs (idx, msg) = Inr ks"
    and "msg_user msg = Some user_id" and "get_or (msg_contains_code msg) False"
  shows "\<exists>snippet acks uses. msg_text msg = Some snippet \<and>
    collect (ack_of user_id ch snippet)
      (py_slice msgs (int idx + 1) (int idx + 1 + context_window)) = Inr acks \<and>
    collect (usage_of user_id snippet) cs = Inr uses \<and> ks = acks @ uses"
  using assms by (auto simp: kudos_of_def req_Inr_iff and_then_Inr_iff)

lemma kudos_of_skip:
  assumes "\<not> (msg_user msg = Some user_id \<and> get_or (msg_contains_code msg) False)"
  shows "kudos_of user_id context_window ch cs msgs (idx, msg) = Inr []"
  using assms by (auto simp: kudos_of_def)

lemma extract_peer_kudos_at:
  assumes "extract_peer_kudos sd gd user_id context_window = Inr ks"
    and "ch \<in> set (get_or (channels sd) [])"
    and "idx < length (get_or (messages ch) [])"
  shows "\<exists>zs. kudos_of user_id context_window ch (get_or (commits gd) [])
      (get_or (messages ch) []) (idx, get_or (messages ch) [] ! idx) = Inr zs \<and>
    set zs \<subseteq> set ks"
proof -
  let ?msgs = "get_or (messages ch) []"
  let ?body = "kudos_of user_id context_window ch (get_or (commits gd) []) ?msgs"
  from assms(1,2) obtain ys where ys: "collect ?body (List.enumerate 0 ?msgs) = Inr ys"
    and sub: "set ys \<subseteq> set ks"
    unfolding extract_peer_kudos_def Let_def by (blast dest: collect_Inr_elem)
  from assms(3) have "(idx, ?msgs ! idx) \<in> set (List.enumerate 0 ?msgs)"
    by (simp add: in_enumerate0)
  from collect_Inr_elem [OF ys this] sub show ?thesis by blast
qed

lemma extract_peer_kudos_origin:
  assumes "extract_peer_kudos sd gd user_id context_window = Inr ks" and "k \<in> set ks"
  shows "\<exists>ch\<in>set (get_or (channels sd) []). \<exists>idx<length (get_or (messages ch) []). \<exists>zs.
    kudos_of user_id context_window ch (get_or (commits gd) [])
      (get_or (messages ch) []) (idx, get_or (messages ch) [] ! idx) = Inr zs \<and> k \<in> set zs"
proof -
  from collect_Inr_origin [OF assms [unfolded extract_peer_kudos_def]]
  obtain ch ys where ch: "ch \<in> set (get_or (channels sd) [])"
    and ys: "collect (kudos_of user_id context_window ch (get_or (commits gd) [])
        (get_or (messages ch) [])) (List.enumerate 0 (get_or (messages ch) [])) = Inr ys"
    and k: "k \<in> set ys"
    by (auto simp: Let_def)
  from collect_Inr_origin [OF ys k] obtain im zs
    where im: "im \<in> set (List.enumerate 0 (get_or (messages ch) []))"
      and zs: "kudos_of user_id context_window ch (get_or (commits gd) [])
        (get_or (messages ch) []) im = Inr zs" "k \<in> set zs"
    by blast
  obtain idx msg where [simp]: "im = (idx, msg)" by (cases im)
  from im have "idx < length (get_or (messages ch) [])" "get_or (messages ch) [] ! idx = msg"
    by (simp_all add: in_enumerate0)
  with ch zs show ?thesis by auto
qed

lemma github_usage_origin:
  assumes "extract_peer_kudos sd gd user_id context_window = Inr ks"
    and "k \<in> set ks" and "kudos_type k = ''github_usage''"
  shows "\<exists>c\<in>set (get_or (commits gd) []).
     k = Github_usage user_id (to_user k) ''github'' (code_snippet k) (commit_sha k) \<and>
     author c = Some (to_user k) \<and> to_user k \<noteq> user_id \<and> sha c = Some (commit_sha k) \<and>
     sublist (take 30 (code_snippet k)) (commit_text c)"
proof -
  from extract_peer_kudos_origin [OF assms(1,2)]
  obtain ch idx zs where idx: "idx < length (get_or (messages ch) [])"
    and zs: "kudos_of user_id context_window ch (get_or (commits gd) [])
      (get_or (messages ch) []) (idx, get_or (messages ch) [] ! idx) = Inr zs" "k \<in> set zs"
    by blast
  let ?msg = "get_or (messages ch) [] ! idx"
  have trig: "msg_user ?msg = Some user_id \<and> get_or (msg_contains_code ?msg) False"
    using zs by (auto simp: kudos_of_def split: if_splits)
  from kudos_of_Inr [OF zs(1)] trig
  obtain snippet acks uses where
    acks: "collect (ack_of user_id ch snippet)
      (py_slice (get_or (messages ch) []) (int idx + 1) (int idx + 1 + context_window)) = Inr acks"
    and uses: "collect (usage_of user_id snippet) (get_or (commits gd) []) = Inr uses"
    and zs_eq: "zs = acks @ uses"
    by blast
  have "k \<notin> set acks"
  proof
    assume "k \<in> set acks"
    from collect_Inr_origin [OF acks this] obtain f as
      where "ack_of user_id ch snippet f = Inr as" "k \<in> set as" by blast
    with ack_of_Inr [of user_id ch snippet f as] assms(3) show False
      by (auto split: if_splits)
  qed
  with zs(2) zs_eq have "k \<in> set uses" by simp
  from collect_Inr_origin [OF uses this] obtain c us
    where c: "c \<in> set (get_or (commits gd) [])"
      and us: "usage_of user_id snippet c = Inr us" "k \<in> set us" by blast
  from usage_of_Inr [OF us(1)] us(2) c show ?thesis
    by (auto split: if_splits)
qed

section \<open>Commit usage facts\<close>

text \<open>
  C1, as amended. Every fact of type \<^verbatim>\<open>github_usage\<close> returned by
  \<^verbatim>\<open>extract_peer_kudos\<close> comes from a commit of the collection whose author is the fact's
  \<open>to_user\<close> and differs from the target user, whose sha is the fact's \<open>commit_sha\<close>, and
  such that the first 30 characters of the recorded snippet are a contiguous substring of
  the text the code tests: the commit's diff body, one space, and its message text, in that
  order (an absent diff or message counting as the empty string).
\<close>

theorem commit_usage_prefix_in_commit_text:
  assumes "extract_peer_kudos sd gd user_id context_window = Inr ks"
    and "k \<in> set ks" and "kudos_type k = ''github_usage''"
  shows "\<exists>c\<in>set (get_or (commits gd) []).
     author c = Some (to_user k) \<and> to_user k \<noteq> user_id \<and> sha c = Some (commit_sha k) \<and>
     sublist (take 30 (code_snippet k))
       (get_or (codediff c) '''' @ '' '' @ get_or (commit_message c) '''')"
  using github_usage_origin [OF assms] unfolding commit_text_def by blast

text \<open>
  C1 as stated speaks of the concatenation of the diff body and the message text. The code
  joins them with a space, so a snippet can match across the joint: the snippet \<open>x y\<close>
  matches the commit with diff \<open>x\<close> and message \<open>y\<close>, and is no substring of \<open>xy\<close>.
\<close>

theorem commit_usage_concat_counterexample:
  "extract_peer_kudos (ex_slack [ex_msg ''A'' ''x y'' (Some True)])
     (ex_github [ex_commit ''B'' ''s1'' ''x'' ''y'']) ''A'' 3
   = Inr [Github_usage ''A'' ''B'' ''github'' ''x y'' ''s1''] \<and>
   \<not> sublist (take 30 ''x y'') (''x'' @ ''y'')"
  by code_simp

theorem commit_usage_prefix_in_commit_text_witness:
  "extract_peer_kudos (ex_slack [ex_msg ''A'' ''x y'' (Some True)])
     (ex_github [ex_commit ''B'' ''s1'' ''x'' ''y'']) ''A'' 3
   = Inr [Github_usage ''A'' ''B'' ''github'' ''x y'' ''s1''] \<and>
   (\<exists>c\<in>set (get_or (commits (ex_github [ex_commit ''B'' ''s1'' ''x'' ''y''])) []).
     author c = Some ''B'' \<and> ''B'' \<noteq> ''A'' \<and> sha c = Some ''s1'' \<and>
     sublist (take 30 ''x y'')
       (get_or (codediff c) '''' @ '' '' @ get_or (commit_message c) ''''))"
proof -
  have run: "extract_peer_kudos (ex_slack [ex_msg ''A'' ''x y'' (Some True)])
     (ex_github [ex_commit ''B'' ''s1'' ''x'' ''y'']) ''A'' 3
   = Inr [Github_usage ''A'' ''B'' ''github'' ''x y'' ''s1'']"
    by code_simp
  from commit_usage_prefix_in_commit_text [OF run, of "Github_usage ''A'' ''B'' ''github'' ''x y'' ''s1''"]
  show ?thesis using run by simp
qed

text \<open>One usage fact for each matching commit of another author, in the order of the
  collection, and nothing else.\<close>

lemma collect_usage_of_Inr:
  assumes "collect (usage_of user_id snippet) cs = Inr us"
  shows "list_all2
     (\<lambda>c k. \<exists>a h. author c = Some a \<and> sha c = Some h \<and>
        k = Github_usage user_id a ''github'' snippet h)
     (filter (\<lambda>c. author c \<noteq> Some user_id \<and> sublist (take 30 snippet) (commit_text c)) cs)
     us"
  using assms
proof (induction cs arbitrary: us)
  case Nil
  then show ?case by simp
next
  case (Cons c cs)
  from Cons.prems obtain u v where u: "usage_of user_id snippet c = Inr u"
    and v: "collect (usage_of user_id snippet) cs = Inr v" and us: "us = u @ v"
    by (auto simp: and_then_Inr_iff)
  from usage_of_Inr [OF u] Cons.IH [OF v] us show ?case
    by (auto split: if_splits)
qed

text \<open>One acknowledgment fact for each follow-up of another author, in order, and
  nothing else.\<close>

lemma collect_ack_of_Inr:
  assumes "collect (ack_of user_id ch snippet) fs = Inr as"
  shows "list_all2
     (\<lambda>f k. \<exists>u cid a. msg_user f = Some u \<and> channel_id ch = Some cid \<and>
        msg_text f = Some a \<and> k = Slack_ack user_id u cid snippet a)
     (filter (\<lambda>f. msg_user f \<noteq> Some user_id) fs) as"
  using assms
proof (induction fs arbitrary: as)
  case Nil
  then show ?case by simp
next
  case (Cons f fs)
  from Cons.prems obtain u v where u: "ack_of user_id ch snippet f = Inr u"
    and v: "collect (ack_of user_id ch snippet) fs = Inr v" and as: "as = u @ v"
    by (auto simp: and_then_Inr_iff)
  from ack_of_Inr [OF u] Cons.IH [OF v] as show ?case
    by (auto split: if_splits)
qed

lemma list_all2_filter_right_all:
  assumes "list_all2 R xs ys" and "\<And>x y. R x y \<Longrightarrow> P y"
  shows "filter P ys = ys"
  using assms by (induction rule: list_all2_induct) auto

lemma list_all2_filter_right_none:
  assumes "list_all2 R xs ys" and "\<And>x y. R x y \<Longrightarrow> \<not> P y"
  shows "filter P ys = []"
  using assms by (induction rule: list_all2_induct) auto

text \<open>What a message of the target user that contains code contributes, once the run
  returns: its facts are among the result; those of type \<^verbatim>\<open>slack_ack\<close> are, in order, one
  for each message of another author in \<open>messages[idx + 1:idx + 1 + context_window]\<close>, and
  those of type \<^verbatim>\<open>github_usage\<close> one for each matching commit of another author.\<close>

lemma kudos_of_trigger:
  assumes run: "extract_peer_kudos sd gd user_id context_window = Inr ks"
    and ch: "ch \<in> set (get_or (channels sd) [])"
    and idx: "idx < length (get_or (messages ch) [])"
    and user: "msg_user (get_or (messages ch) [] ! idx) = Some user_id"
    and code: "get_or (msg_contains_code (get_or (messages ch) [] ! idx)) False"
  shows "\<exists>snippet zs. msg_text (get_or (messages ch) [] ! idx) = Some snippet \<and>
    kudos_of user_id context_window ch (get_or (commits gd) []) (get_or (messages ch) [])
      (idx, get_or (messages ch) [] ! idx) = Inr zs \<and>
    set zs \<subseteq> set ks \<and>
    list_all2
      (\<lambda>f k. \<exists>u cid a. msg_user f = Some u \<and> channel_id ch = Some cid \<and>
         msg_text f = Some a \<and> k = Slack_ack user_id u cid snippet a)
      (filter (\<lambda>f. msg_user f \<noteq> Some user_id)
         (py_slice (get_or (messages ch) []) (int idx + 1) (int idx + 1 + context_window)))
      (filter (\<lambda>k. kudos_type k = ''slack_ack'') zs) \<and>
    list_all2
      (\<lambda>c k. \<exists>a h. author c = Some a \<and> sha c = Some h \<and>
         k = Github_usage user_id a ''github'' snippet h)
      (filter (\<lambda>c. author c \<noteq> Some user_id \<and> sublist (take 30 snippet) (commit_text c))
         (get_or (commits gd) []))
      (filter (\<lambda>k. kudos_type k = ''github_usage'') zs)"
proof -
  let ?msgs = "get_or (messages ch) []"
  from extract_peer_kudos_at [OF run ch idx] obtain zs
    where zs: "kudos_of user_id context_window ch (get_or (commits gd) []) ?msgs
      (idx, ?msgs ! idx) = Inr zs" and sub: "set zs \<subseteq> set ks"
    by blast
  from kudos_of_Inr [OF zs user code] obtain snippet acks uses
    where snip: "msg_text (?msgs ! idx) = Some snippet"
      and acks: "collect (ack_of user_id ch snippet)
        (py_slice ?msgs (int idx + 1) (int idx + 1 + context_window)) = Inr acks"
      and uses: "collect (usage_of user_id snippet) (get_or (commits gd) []) = Inr uses"
      and zs_eq: "zs = acks @ uses"
    by blast
  note A = collect_ack_of_Inr [OF acks]
  note U = collect_usage_of_Inr [OF uses]
  have a1: "filter (\<lambda>k. kudos_type k = ''slack_ack'') acks = acks"
    by (rule list_all2_filter_right_all [OF A]) auto
  have a2: "filter (\<lambda>k. kudos_type k = ''github_usage'') acks = []"
    by (rule list_all2_filter_right_none [OF A]) auto
  have u1: "filter (\<lambda>k. kudos_type k = ''github_usage'') uses = uses"
    by (rule list_all2_filter_right_all [OF U]) auto
  have u2: "filter (\<lambda>k. kudos_type k = ''slack_ack'') uses = []"
    by (rule list_all2_filter_right_none [OF U]) auto
  from snip zs sub A U show ?thesis
    unfolding zs_eq by (simp add: a1 a2 u1 u2)
qed

lemma py_slice_window:
  assumes "0 \<le> w" and "idx < length xs"
  shows "py_slice xs (int idx + 1) (int idx + 1 + w) = take (nat w) (drop (Suc idx) xs)"
proof -
  have "take (nat (min (int idx + 1 + w) (int (length xs)) - (int idx + 1))) (drop (Suc idx) xs)
      = take (nat w) (drop (Suc idx) xs)"
  proof (cases "int idx + 1 + w \<le> int (length xs)")
    case True
    then show ?thesis by (simp add: min_def)
  next
    case False
    then have "length (drop (Suc idx) xs) \<le> nat w" using assms by simp
    moreover from False have "min (int idx + 1 + w) (int (length xs)) = int (length xs)"
      by (simp add: min_def)
    ultimately show ?thesis using assms by (simp add: nat_diff_distrib')
  qed
  with assms show ?thesis
    by (simp add: py_slice_def py_bound_def Let_def min_def nat_add_distrib)
qed

lemma in_window:
  assumes "idx < j" and "j < length xs" and "int j \<le> int idx + w"
  shows "xs ! j \<in> set (take (nat w) (drop (Suc idx) xs))"
proof -
  let ?d = "drop (Suc idx) xs"
  from assms have k: "j - Suc idx < length ?d" "j - Suc idx < nat w" by auto
  then have "take (nat w) ?d ! (j - Suc idx) = ?d ! (j - Suc idx)" by simp
  also have "\<dots> = xs ! j" using assms by simp
  finally have "xs ! j = take (nat w) ?d ! (j - Suc idx)" by simp
  moreover from k have "j - Suc idx < length (take (nat w) ?d)" by simp
  ultimately show ?thesis by (metis nth_mem)
qed

lemma list_all2_left_elem:
  assumes "list_all2 R xs ys" and "x \<in> set xs"
  shows "\<exists>y\<in>set ys. R x y"
  using assms by (induction rule: list_all2_induct) auto


section \<open>Channel acknowledgments\<close>

text \<open>
  C2. Let a run of \<^verbatim>\<open>extract_peer_kudos\<close> return, and let message \<open>idx\<close> of a channel be
  authored by the target user with its contains-code flag true. Then the message has a text,
  the snippet, and for every position \<open>j\<close> among the next \<open>context_window\<close> positions after
  \<open>idx\<close> that exists in the channel and whose message is authored by someone else (every
  one, not only the first), the returned facts hold a \<^verbatim>\<open>slack_ack\<close> fact with the channel
  id, the snippet and that follow-up's author and text. For a window that is not negative
  the \<^verbatim>\<open>slack_ack\<close> facts of the message are, in order, exactly one for each such follow-up.
\<close>

theorem slack_ack_for_every_follow_up:
  assumes "extract_peer_kudos sd gd user_id context_window = Inr ks"
    and "ch \<in> set (get_or (channels sd) [])"
    and "get_or (messages ch) [] = msgs" and "get_or (commits gd) [] = cs"
    and "idx < length msgs"
    and "msg_user (msgs ! idx) = Some user_id"
    and "msg_contains_code (msgs ! idx) = Some True"
  shows "\<exists>snippet zs. msg_text (msgs ! idx) = Some snippet \<and>
    kudos_of user_id context_window ch cs msgs (idx, msgs ! idx) = Inr zs \<and>
    set zs \<subseteq> set ks \<and>
    (\<forall>j. idx < j \<and> j < length msgs \<and> int j \<le> int idx + context_window \<and>
        msg_user (msgs ! j) \<noteq> Some user_id \<longrightarrow>
      (\<exists>u cid a. msg_user (msgs ! j) = Some u \<and> channel_id ch = Some cid \<and>
         msg_text (msgs ! j) = Some a \<and> Slack_ack user_id u cid snippet a \<in> set zs)) \<and>
    (0 \<le> context_window \<longrightarrow>
      list_all2
        (\<lambda>f k. \<exists>u cid a. msg_user f = Some u \<and> channel_id ch = Some cid \<and>
           msg_text f = Some a \<and> k = Slack_ack user_id u cid snippet a)
        (filter (\<lambda>f. msg_user f \<noteq> Some user_id)
           (take (nat context_window) (drop (Suc idx) msgs)))
        (filter (\<lambda>k. kudos_type k = ''slack_ack'') zs))"
proof -
  have code: "get_or (msg_contains_code (get_or (messages ch) [] ! idx)) False"
    using assms(3,7) by (simp add: get_or_def)
  from kudos_of_trigger [OF assms(1,2), of idx] assms(3-6) code
  obtain snippet zs where snip: "msg_text (msgs ! idx) = Some snippet"
    and zs: "kudos_of user_id context_window ch cs msgs (idx, msgs ! idx) = Inr zs"
    and sub: "set zs \<subseteq> set ks"
    and acks: "list_all2
      (\<lambda>f k. \<exists>u cid a. msg_user f = Some u \<and> channel_id ch = Some cid \<and>
         msg_text f = Some a \<and> k = Slack_ack user_id u cid snippet a)
      (filter (\<lambda>f. msg_user f \<noteq> Some user_id)
         (py_slice msgs (int idx + 1) (int idx + 1 + context_window)))
      (filter (\<lambda>k. kudos_type k = ''slack_ack'') zs)"
    by auto
  have each: "\<exists>u cid a. msg_user (msgs ! j) = Some u \<and> channel_id ch = Some cid \<and>
         msg_text (msgs ! j) = Some a \<and> Slack_ack user_id u cid snippet a \<in> set zs"
    if j: "idx < j" "j < length msgs" "int j \<le> int idx + context_window"
      "msg_user (msgs ! j) \<noteq> Some user_id" for j
  proof -
    from j have w: "0 \<le> context_window" by simp
    from in_window [OF j(1-3)] j(4)
    have "msgs ! j \<in> set (filter (\<lambda>f. msg_user f \<noteq> Some user_id)
         (py_slice msgs (int idx + 1) (int idx + 1 + context_window)))"
      by (simp add: py_slice_window [OF w assms(5)])
    from list_all2_left_elem [OF acks this] show ?thesis by auto
  qed
  from acks have "0 \<le> context_window \<longrightarrow>
      list_all2
        (\<lambda>f k. \<exists>u cid a. msg_user f = Some u \<and> channel_id ch = Some cid \<and>
           msg_text f = Some a \<and> k = Slack_ack user_id u cid snippet a)
        (filter (\<lambda>f. msg_user f \<noteq> Some user_id)
           (take (nat context_window) (drop (Suc idx) msgs)))
        (filter (\<lambda>k. kudos_type k = ''slack_ack'') zs)"
    using py_slice_window [OF _ assms(5), of context_window] by auto
  with snip zs sub each show ?thesis by blast
qed


theorem slack_ack_for_every_follow_up_witness:
  "extract_peer_kudos (ex_slack ex_thread) (ex_github []) ''A'' 3
     = Inr [Slack_ack ''A'' ''B'' ''general'' ''snip'' ''nice'',
            Slack_ack ''A'' ''C'' ''general'' ''snip'' ''thanks''] \<and>
   (\<exists>snippet zs. msg_text (ex_thread ! 0) = Some snippet \<and>
    kudos_of ''A'' 3 (ex_channel ex_thread) [] ex_thread (0, ex_thread ! 0) = Inr zs \<and>
    set zs \<subseteq> set [Slack_ack ''A'' ''B'' ''general'' ''snip'' ''nice'',
            Slack_ack ''A'' ''C'' ''general'' ''snip'' ''thanks''] \<and>
    (\<forall>j. 0 < j \<and> j < length ex_thread \<and> int j \<le> int 0 + 3 \<and>
        msg_user (ex_thread ! j) \<noteq> Some ''A'' \<longrightarrow>
      (\<exists>u cid a. msg_user (ex_thread ! j) = Some u \<and>
         channel_id (ex_channel ex_thread) = Some cid \<and>
         msg_text (ex_thread ! j) = Some a \<and> Slack_ack ''A'' u cid snippet a \<in> set zs)) \<and>
    ((0::int) \<le> 3 \<longrightarrow>
      list_all2
        (\<lambda>f k. \<exists>u cid a. msg_user f = Some u \<and> channel_id (ex_channel ex_thread) = Some cid \<and>
           msg_text f = Some a \<and> k = Slack_ack ''A'' u cid snippet a)
        (filter (\<lambda>f. msg_user f \<noteq> Some ''A'')
           (take (nat 3) (drop (Suc 0) ex_thread)))
        (filter (\<lambda>k. kudos_type k = ''slack_ack'') zs)))"
proof -
  have run: "extract_peer_kudos (ex_slack ex_thread) (ex_github []) ''A'' 3
     = Inr [Slack_ack ''A'' ''B'' ''general'' ''snip'' ''nice'',
            Slack_ack ''A'' ''C'' ''general'' ''snip'' ''thanks'']"
    by code_simp
  have ch: "ex_channel ex_thread \<in> set (get_or (channels (ex_slack ex_thread)) [])"
    by (simp add: ex_slack_def get_or_def)
  have ms: "get_or (messages (ex_channel ex_thread)) [] = ex_thread"
    by (simp add: ex_channel_def get_or_def)
  have cs: "get_or (commits (ex_github [])) [] = []"
    by (simp add: ex_github_def get_or_def)
  have idx: "0 < length ex_thread"
    by (simp add: ex_thread_def)
  have user: "msg_user (ex_thread ! 0) = Some ''A''"
    by (simp add: ex_thread_def ex_msg_def)
  have code: "msg_contains_code (ex_thread ! 0) = Some True"
    by (simp add: ex_thread_def ex_msg_def)
  from run slack_ack_for_every_follow_up [OF run ch ms cs idx user code]
  show ?thesis by (rule conjI)
qed

section \<open>The commit usage pass on short and empty snippets\<close>

text \<open>
  C8. Let a run of \<^verbatim>\<open>extract_peer_kudos\<close> return, and let message \<open>idx\<close> of a channel be
  authored by the target user with its contains-code flag true and the empty text. Then the
  facts of type \<^verbatim>\<open>github_usage\<close> that the message contributes to the result are, in the
  order of the collection, exactly one for every commit whose author differs from the
  target user, with that commit's author and sha.
\<close>

theorem empty_snippet_usage_for_every_other_commit:
  assumes "extract_peer_kudos sd gd user_id context_window = Inr ks"
    and "ch \<in> set (get_or (channels sd) [])"
    and "get_or (messages ch) [] = msgs" and "get_or (commits gd) [] = cs"
    and "idx < length msgs"
    and "msg_user (msgs ! idx) = Some user_id"
    and "msg_contains_code (msgs ! idx) = Some True"
    and "msg_text (msgs ! idx) = Some ''''"
  shows "\<exists>zs. kudos_of user_id context_window ch cs msgs (idx, msgs ! idx) = Inr zs \<and>
    set zs \<subseteq> set ks \<and>
    list_all2
      (\<lambda>c k. \<exists>a h. author c = Some a \<and> sha c = Some h \<and>
         k = Github_usage user_id a ''github'' '''' h)
      (filter (\<lambda>c. author c \<noteq> Some user_id) cs)
      (filter (\<lambda>k. kudos_type k = ''github_usage'') zs)"
proof -
  have code: "get_or (msg_contains_code (get_or (messages ch) [] ! idx)) False"
    using assms(3,7) by (simp add: get_or_def)
  from kudos_of_trigger [OF assms(1,2), of idx] assms(3-6,8) code
  show ?thesis by auto
qed

theorem empty_snippet_usage_for_every_other_commit_witness:
  "extract_peer_kudos (ex_slack [ex_msg ''A'' '''' (Some True)]) (ex_github ex_commits3) ''A'' 3
     = Inr [Github_usage ''A'' ''B'' ''github'' '''' ''s1'',
            Github_usage ''A'' ''C'' ''github'' '''' ''s3''] \<and>
   (\<exists>zs. kudos_of ''A'' 3 (ex_channel [ex_msg ''A'' '''' (Some True)]) ex_commits3
        [ex_msg ''A'' '''' (Some True)] (0, [ex_msg ''A'' '''' (Some True)] ! 0) = Inr zs \<and>
    set zs \<subseteq> set [Github_usage ''A'' ''B'' ''github'' '''' ''s1'',
            Github_usage ''A'' ''C'' ''github'' '''' ''s3''] \<and>
    list_all2
      (\<lambda>c k. \<exists>a h. author c = Some a \<and> sha c = Some h \<and>
         k = Github_usage ''A'' a ''github'' '''' h)
      (filter (\<lambda>c. author c \<noteq> Some ''A'') ex_commits3)
      (filter (\<lambda>k. kudos_type k = ''github_usage'') zs))"
proof -
  let ?msgs = "[ex_msg ''A'' '''' (Some True)]"
  have run: "extract_peer_kudos (ex_slack ?msgs) (ex_github ex_commits3) ''A'' 3
     = Inr [Github_usage ''A'' ''B'' ''github'' '''' ''s1'',
            Github_usage ''A'' ''C'' ''github'' '''' ''s3'']"
    by code_simp
  have ch: "ex_channel ?msgs \<in> set (get_or (channels (ex_slack ?msgs)) [])"
    by (simp add: ex_slack_def get_or_def)
  have ms: "get_or (messages (ex_channel ?msgs)) [] = ?msgs"
    by (simp add: ex_channel_def get_or_def)
  have cs: "get_or (commits (ex_github ex_commits3)) [] = ex_commits3"
    by (simp add: ex_github_def get_or_def)
  have idx: "0 < length ?msgs" by simp
  have user: "msg_user (?msgs ! 0) = Some ''A''" by (simp add: ex_msg_def)
  have code: "msg_contains_code (?msgs ! 0) = Some True" by (simp add: ex_msg_def)
  have empty: "msg_text (?msgs ! 0) = Some ''''" by (simp add: ex_msg_def)
  from run empty_snippet_usage_for_every_other_commit [OF run ch ms cs idx user code empty]
  show ?thesis by (rule conjI)
qed

text \<open>
  C9, as amended. Let a run of \<^verbatim>\<open>extract_peer_kudos\<close> return, and let message \<open>idx\<close> of a
  channel be authored by the target user with its contains-code flag true and a text of
  fewer than 30 characters. Then the whole text is what is searched for, nothing is padded:
  the facts of type \<^verbatim>\<open>github_usage\<close> that the message contributes are, in the order of the
  collection, exactly one for every commit of another author such that the whole snippet is
  a contiguous substring of the commit's diff body, one space, and its message text, in that
  order (an absent diff or message counting as the empty string).
\<close>

theorem short_snippet_tested_whole:
  assumes "extract_peer_kudos sd gd user_id context_window = Inr ks"
    and "ch \<in> set (get_or (channels sd) [])"
    and "get_or (messages ch) [] = msgs" and "get_or (commits gd) [] = cs"
    and "idx < length msgs"
    and "msg_user (msgs ! idx) = Some user_id"
    and "msg_contains_code (msgs ! idx) = Some True"
    and "msg_text (msgs ! idx) = Some snippet"
    and "length snippet < 30"
  shows "\<exists>zs. kudos_of user_id context_window ch cs msgs (idx, msgs ! idx) = Inr zs \<and>
    set zs \<subseteq> set ks \<and>
    list_all2
      (\<lambda>c k. \<exists>a h. author c = Some a \<and> sha c = Some h \<and>
         k = Github_usage user_id a ''github'' snippet h)
      (filter (\<lambda>c. author c \<noteq> Some user_id \<and>
          sublist snippet (get_or (codediff c) '''' @ '' '' @ get_or (commit_message c) ''''))
         cs)
      (filter (\<lambda>k. kudos_type k = ''github_usage'') zs)"
proof -
  have code: "get_or (msg_contains_code (get_or (messages ch) [] ! idx)) False"
    using assms(3,7) by (simp add: get_or_def)
  from kudos_of_trigger [OF assms(1,2), of idx] assms(3-6,8,9) code
  show ?thesis by (auto simp: commit_text_def)
qed

text \<open>
  C9 as stated speaks of the snippet appearing in the concatenated diff and message. The
  snippet \<open>ab\<close> appears in the concatenation of the diff \<open>a\<close> and the message \<open>b\<close>, and no
  fact is emitted: the code searches \<open>a b\<close>.
\<close>

theorem short_snippet_concat_counterexample:
  "extract_peer_kudos (ex_slack [ex_msg ''A'' ''ab'' (Some True)])
     (ex_github [ex_commit ''B'' ''s1'' ''a'' ''b'']) ''A'' 3 = Inr [] \<and>
   length ''ab'' < (30::nat) \<and> sublist ''ab'' (''a'' @ ''b'')"
  by code_simp

theorem short_snippet_tested_whole_witness:
  "extract_peer_kudos (ex_slack [ex_msg ''A'' ''foo()'' (Some True)]) (ex_github ex_commits3) ''A'' 3
     = Inr [Github_usage ''A'' ''B'' ''github'' ''foo()'' ''s1''] \<and>
   (\<exists>zs. kudos_of ''A'' 3 (ex_channel [ex_msg ''A'' ''foo()'' (Some True)]) ex_commits3
        [ex_msg ''A'' ''foo()'' (Some True)] (0, [ex_msg ''A'' ''foo()'' (Some True)] ! 0) = Inr zs \<and>
    set zs \<subseteq> set [Github_usage ''A'' ''B'' ''github'' ''foo()'' ''s1''] \<and>
    list_all2
      (\<lambda>c k. \<exists>a h. author c = Some a \<and> sha c = Some h \<and>
         k = Github_usage ''A'' a ''github'' ''foo()'' h)
      (filter (\<lambda>c. author c \<noteq> Some ''A'' \<and>
          sublist ''foo()'' (get_or (codediff c) '''' @ '' '' @ get_or (commit_message c) ''''))
         ex_commits3)
      (filter (\<lambda>k. kudos_type k = ''github_usage'') zs))"
proof -
  let ?msgs = "[ex_msg ''A'' ''foo()'' (Some True)]"
  have run: "extract_peer_kudos (ex_slack ?msgs) (ex_github ex_commits3) ''A'' 3
     = Inr [Github_usage ''A'' ''B'' ''github'' ''foo()'' ''s1'']"
    by code_simp
  have ch: "ex_channel ?msgs \<in> set (get_or (channels (ex_slack ?msgs)) [])"
    by (simp add: ex_slack_def get_or_def)
  have ms: "get_or (messages (ex_channel ?msgs)) [] = ?msgs"
    by (simp add: ex_channel_def get_or_def)
  have cs: "get_or (commits (ex_github ex_commits3)) [] = ex_commits3"
    by (simp add: ex_github_def get_or_def)
  have idx: "0 < length ?msgs" by simp
  have user: "msg_user (?msgs ! 0) = Some ''A''" by (simp add: ex_msg_def)
  have code: "msg_contains_code (?msgs ! 0) = Some True" by (simp add: ex_msg_def)
  have snip: "msg_text (?msgs ! 0) = Some ''foo()''" by (simp add: ex_msg_def)
  have short: "length ''foo()'' < 30" by simp
  from run short_snippet_tested_whole [OF run ch ms cs idx user code snip short]
  show ?thesis by (rule conjI)
qed

section \<open>Commits without a diff body or a message text\<close>

lemma collect_map: "collect f (map g xs) = collect (\<lambda>x. f (g x)) xs"
  by (induction xs) simp_all

lemma isl_usage_of:
  "isl (usage_of user_id snippet c) \<longleftrightarrow>
     author c \<noteq> Some user_id \<and> sublist (take 30 snippet) (commit_text c) \<and>
     (author c = None \<or> sha c = None)"
  by (auto simp: usage_of_def isl_req)

lemma usage_of_defaults:
  "usage_of user_id snippet
     (c\<lparr>codediff := Some (get_or (codediff c) ''''),
        commit_message := Some (get_or (commit_message c) '''')\<rparr>)
   = usage_of user_id snippet c"
  by (simp add: usage_of_def commit_text_def get_or_def)

lemma collect_usage_of_defaults:
  "collect (usage_of user_id snippet)
     (map (\<lambda>c. c\<lparr>codediff := Some (get_or (codediff c) ''''),
        commit_message := Some (get_or (commit_message c) '''')\<rparr>) cs)
   = collect (usage_of user_id snippet) cs"
  by (simp add: collect_map usage_of_defaults)

text \<open>
  C10. A commit without the key \<^verbatim>\<open>codediff\<close> or \<^verbatim>\<open>commit_message\<close> is to
  \<^verbatim>\<open>extract_peer_kudos\<close> the same commit with the empty string under that key: the result,
  and whether there is one, are the same. The commit usage pass for a snippet raises exactly
  when some commit of another author (or of none) matches and lacks its author or its sha;
  whether a diff body or a message text is present plays no part.
\<close>

theorem missing_diff_or_message_counts_as_empty:
  "extract_peer_kudos sd
      \<lparr>commits = Some (map (\<lambda>c. c\<lparr>codediff := Some (get_or (codediff c) ''''),
          commit_message := Some (get_or (commit_message c) '''')\<rparr>) (get_or (commits gd) []))\<rparr>
      user_id context_window
     = extract_peer_kudos sd gd user_id context_window \<and>
   (isl (collect (usage_of user_id snippet) cs) \<longleftrightarrow>
     (\<exists>c\<in>set cs. author c \<noteq> Some user_id \<and>
        sublist (take 30 snippet)
          (get_or (codediff c) '''' @ '' '' @ get_or (commit_message c) '''') \<and>
        (author c = None \<or> sha c = None)))"
proof
  let ?fill = "\<lambda>c. c\<lparr>codediff := Some (get_or (codediff c) ''''),
          commit_message := Some (get_or (commit_message c) '''')\<rparr>"
  have body: "kudos_of user_id context_window ch (map ?fill xs) msgs
      = kudos_of user_id context_window ch xs msgs" for ch xs msgs
  proof
    fix im
    show "kudos_of user_id context_window ch (map ?fill xs) msgs im
      = kudos_of user_id context_window ch xs msgs im"
      by (cases im) (simp add: kudos_of_def collect_usage_of_defaults cong: if_cong)
  qed
  show "extract_peer_kudos sd \<lparr>commits = Some (map ?fill (get_or (commits gd) []))\<rparr>
      user_id context_window = extract_peer_kudos sd gd user_id context_window"
    by (simp add: extract_peer_kudos_def body)
next
  show "isl (collect (usage_of user_id snippet) cs) \<longleftrightarrow>
     (\<exists>c\<in>set cs. author c \<noteq> Some user_id \<and>
        sublist (take 30 snippet)
          (get_or (codediff c) '''' @ '' '' @ get_or (commit_message c) '''') \<and>
        (author c = None \<or> sha c = None))"
    by (simp add: isl_collect isl_usage_of commit_text_def)
qed

lemma commit_without_diff_example:
  "extract_peer_kudos (ex_slack [ex_msg ''A'' '''' (Some True)])
     (ex_github [\<lparr>author = Some ''B'', sha = Some ''s1'', date = None, commit_message = None,
        files_changed = None, lines_added = None, lines_deleted = None, area = None,
        codediff = None\<rparr>]) ''A'' 3
   = Inr [Github_usage ''A'' ''B'' ''github'' '''' ''s1'']"
  by code_simp

section \<open>Received code\<close>

lemma enumerate0_eq_map: "List.enumerate 0 xs = map (\<lambda>i. (i, xs ! i)) [0..<length xs]"
  by (rule nth_equalityI) (simp_all add: nth_enumerate_eq)

text \<open>A nested loop over the channels and, with their positions, the messages of each:
  the result is the concatenation, in order, of what the body appends at each position.\<close>

lemma collect_enumerate_Inr:
  assumes "collect (\<lambda>ch. collect (body ch) (List.enumerate 0 (msgs_of ch))) chs = Inr rs"
  shows "rs = concat (map (\<lambda>ch. concat (map (\<lambda>i. projr (body ch (i, msgs_of ch ! i)))
             [0..<length (msgs_of ch)])) chs)"
    and "\<And>ch i. ch \<in> set chs \<Longrightarrow> i < length (msgs_of ch) \<Longrightarrow>
           body ch (i, msgs_of ch ! i) = Inr (projr (body ch (i, msgs_of ch ! i)))"
proof -
  from assms have all: "\<forall>ch\<in>set chs. \<not> isl (collect (body ch) (List.enumerate 0 (msgs_of ch)))"
    and rs: "rs = concat (map (\<lambda>ch. projr (collect (body ch) (List.enumerate 0 (msgs_of ch)))) chs)"
    by (simp_all add: collect_Inr_iff)
  have inner: "collect (body ch) (List.enumerate 0 (msgs_of ch))
      = Inr (concat (map (\<lambda>i. projr (body ch (i, msgs_of ch ! i))) [0..<length (msgs_of ch)]))"
    and each: "\<forall>i<length (msgs_of ch). \<not> isl (body ch (i, msgs_of ch ! i))"
    if "ch \<in> set chs" for ch
  proof -
    from all that obtain ys where ys: "collect (body ch) (List.enumerate 0 (msgs_of ch)) = Inr ys"
      by (cases "collect (body ch) (List.enumerate 0 (msgs_of ch))") auto
    then show "collect (body ch) (List.enumerate 0 (msgs_of ch))
      = Inr (concat (map (\<lambda>i. projr (body ch (i, msgs_of ch ! i))) [0..<length (msgs_of ch)]))"
      by (simp add: collect_Inr_iff enumerate0_eq_map comp_def)
    from ys show "\<forall>i<length (msgs_of ch). \<not> isl (body ch (i, msgs_of ch ! i))"
      by (simp add: collect_Inr_iff enumerate0_eq_map)
  qed
  from rs inner show "rs = concat (map (\<lambda>ch. concat (map (\<lambda>i. projr (body ch (i, msgs_of ch ! i)))
             [0..<length (msgs_of ch)])) chs)"
    by (simp cong: map_cong)
  fix ch i
  assume "ch \<in> set chs" "i < length (msgs_of ch)"
  with each have "\<not> isl (body ch (i, msgs_of ch ! i))" by blast
  then show "body ch (i, msgs_of ch ! i) = Inr (projr (body ch (i, msgs_of ch ! i)))"
    by (cases "body ch (i, msgs_of ch ! i)") auto
qed

lemma scan_follow_ups_Inr:
  assumes "scan_follow_ups user_id ch msg fs = Inr rs"
  shows "length rs \<le> 1 \<and>
    (\<forall>r\<in>set rs. channel_id ch = Some (rc_channel r) \<and>
       msg_user msg = Some (rc_from_user r) \<and> msg_text msg = Some (rc_code_snippet r) \<and>
       (\<exists>k<length fs. msg_user (fs ! k) = Some user_id \<and>
          msg_text (fs ! k) = Some (rc_acknowledged_by_user r) \<and>
          (\<forall>k'<k. msg_user (fs ! k') \<noteq> Some user_id)))"
  using assms
proof (induction fs)
  case Nil
  then show ?case by simp
next
  case (Cons f fs)
  show ?case
  proof (cases "msg_user f = Some user_id")
    case True
    with Cons.prems obtain cid u s a where "channel_id ch = Some cid" "msg_user msg = Some u"
      "msg_text msg = Some s" "msg_text f = Some a"
      "rs = [\<lparr>rc_channel = cid, rc_from_user = u, rc_code_snippet = s,
              rc_acknowledged_by_user = a\<rparr>]"
      by (auto simp: req_Inr_iff)
    with True show ?thesis by auto
  next
    case False
    with Cons.prems have "scan_follow_ups user_id ch msg fs = Inr rs" by simp
    from Cons.IH [OF this] have len: "length rs \<le> 1"
      and IH: "\<And>r. r \<in> set rs \<Longrightarrow> channel_id ch = Some (rc_channel r) \<and>
       msg_user msg = Some (rc_from_user r) \<and> msg_text msg = Some (rc_code_snippet r) \<and>
       (\<exists>k<length fs. msg_user (fs ! k) = Some user_id \<and>
          msg_text (fs ! k) = Some (rc_acknowledged_by_user r) \<and>
          (\<forall>k'<k. msg_user (fs ! k') \<noteq> Some user_id))"
      by blast+
    have "\<exists>k<length (f # fs). msg_user ((f # fs) ! k) = Some user_id \<and>
          msg_text ((f # fs) ! k) = Some (rc_acknowledged_by_user r) \<and>
          (\<forall>k'<k. msg_user ((f # fs) ! k') \<noteq> Some user_id)" if "r \<in> set rs" for r
    proof -
      from IH [OF that] obtain k where k: "k < length fs" "msg_user (fs ! k) = Some user_id"
        "msg_text (fs ! k) = Some (rc_acknowledged_by_user r)"
        "\<forall>k'<k. msg_user (fs ! k') \<noteq> Some user_id"
        by blast
      have "\<forall>k'<Suc k. msg_user ((f # fs) ! k') \<noteq> Some user_id"
        using False k(4) by (auto simp: nth_Cons split: nat.splits)
      with k(1-3) show ?thesis by (intro exI [of _ "Suc k"]) simp
    qed
    with len IH show ?thesis by blast
  qed
qed


lemma received_of_Inr:
  assumes "received_of user_id ch msgs (i, msgs ! i) = Inr rs" and "i < length msgs"
  shows "length rs \<le> 1 \<and>
    (\<forall>r\<in>set rs. msg_contains_code (msgs ! i) = Some True \<and>
       msg_user (msgs ! i) = Some (rc_from_user r) \<and> rc_from_user r \<noteq> user_id \<and>
       msg_text (msgs ! i) = Some (rc_code_snippet r) \<and>
       channel_id ch = Some (rc_channel r) \<and>
       (\<exists>j. i < j \<and> j \<le> i + 3 \<and> j < length msgs \<and>
          msg_user (msgs ! j) = Some user_id \<and>
          msg_text (msgs ! j) = Some (rc_acknowledged_by_user r) \<and>
          (\<forall>k. i < k \<and> k < j \<longrightarrow> msg_user (msgs ! k) \<noteq> Some user_id)))"
proof (cases "get_or (msg_contains_code (msgs ! i)) False \<and> msg_user (msgs ! i) \<noteq> Some user_id")
  case False
  with assms show ?thesis by (auto simp: received_of_def)
next
  case True
  let ?fs = "take 3 (drop (Suc i) msgs)"
  have "py_slice msgs (int i + 1) (int i + 4) = ?fs"
    using py_slice_window [of 3 i msgs] assms(2) by (simp add: add.commute)
  with True assms have scan: "scan_follow_ups user_id ch (msgs ! i) ?fs = Inr rs"
    by (simp add: received_of_def)
  from True have flag: "msg_contains_code (msgs ! i) = Some True"
    by (cases "msg_contains_code (msgs ! i)") auto
  from scan_follow_ups_Inr [OF scan] have len: "length rs \<le> 1"
    and each: "\<And>r. r \<in> set rs \<Longrightarrow> channel_id ch = Some (rc_channel r) \<and>
       msg_user (msgs ! i) = Some (rc_from_user r) \<and>
       msg_text (msgs ! i) = Some (rc_code_snippet r) \<and>
       (\<exists>k<length ?fs. msg_user (?fs ! k) = Some user_id \<and>
          msg_text (?fs ! k) = Some (rc_acknowledged_by_user r) \<and>
          (\<forall>k'<k. msg_user (?fs ! k') \<noteq> Some user_id))"
    by blast+
  have "\<exists>j. i < j \<and> j \<le> i + 3 \<and> j < length msgs \<and>
          msg_user (msgs ! j) = Some user_id \<and>
          msg_text (msgs ! j) = Some (rc_acknowledged_by_user r) \<and>
          (\<forall>k. i < k \<and> k < j \<longrightarrow> msg_user (msgs ! k) \<noteq> Some user_id)"
    if "r \<in> set rs" for r
  proof -
    from each [OF that] obtain k where k: "k < length ?fs" "msg_user (?fs ! k) = Some user_id"
      "msg_text (?fs ! k) = Some (rc_acknowledged_by_user r)"
      "\<forall>k'<k. msg_user (?fs ! k') \<noteq> Some user_id"
      by blast
    from k(1) have k3: "k < 3" and kl: "Suc i + k < length msgs" by auto
    have nth: "?fs ! k' = msgs ! (Suc i + k')" if "k' \<le> k" for k'
      using that k3 kl by simp
    have "msg_user (msgs ! m) \<noteq> Some user_id" if "i < m" "m < Suc i + k" for m
    proof -
      from that have "m - Suc i < k" by simp
      with k(4) have "msg_user (?fs ! (m - Suc i)) \<noteq> Some user_id" by blast
      moreover have "?fs ! (m - Suc i) = msgs ! m"
        using nth [of "m - Suc i"] that by simp
      ultimately show ?thesis by simp
    qed
    with k(2,3) k3 kl nth [of k] show ?thesis
      by (intro exI [of _ "Suc i + k"]) auto
  qed
  with each len flag True show ?thesis by blast
qed

text \<open>
  C3. When \<^verbatim>\<open>get_user_received_code\<close> returns, its facts are, in order, those of each
  message of each channel in turn, and a message contributes at most one fact. Such a fact
  carries the channel id and the author and text of that message, the trigger, whose author
  is not the target user and whose contains-code flag is true; its acknowledgment is the
  text of a message of the target user at one of the next 3 positions of the channel, and no
  message between the trigger and it is by the target user: it is the first in the window.
\<close>

theorem received_code_first_acknowledger:
  assumes "get_user_received_code sd user_id = Inr rs"
  shows "\<exists>per.
    rs = concat (map (\<lambda>ch. concat (map (per ch) [0..<length (get_or (messages ch) [])]))
           (get_or (channels sd) [])) \<and>
    (\<forall>ch\<in>set (get_or (channels sd) []). \<forall>i<length (get_or (messages ch) []).
       length (per ch i) \<le> 1 \<and>
       (\<forall>r\<in>set (per ch i).
          msg_contains_code (get_or (messages ch) [] ! i) = Some True \<and>
          msg_user (get_or (messages ch) [] ! i) = Some (rc_from_user r) \<and>
          rc_from_user r \<noteq> user_id \<and>
          msg_text (get_or (messages ch) [] ! i) = Some (rc_code_snippet r) \<and>
          channel_id ch = Some (rc_channel r) \<and>
          (\<exists>j. i < j \<and> j \<le> i + 3 \<and> j < length (get_or (messages ch) []) \<and>
             msg_user (get_or (messages ch) [] ! j) = Some user_id \<and>
             msg_text (get_or (messages ch) [] ! j) = Some (rc_acknowledged_by_user r) \<and>
             (\<forall>k. i < k \<and> k < j \<longrightarrow>
                msg_user (get_or (messages ch) [] ! k) \<noteq> Some user_id))))"
proof -
  let ?msgs = "\<lambda>ch. get_or (messages ch) []"
  let ?body = "\<lambda>ch. received_of user_id ch (?msgs ch)"
  let ?per = "\<lambda>ch i. projr (?body ch (i, ?msgs ch ! i))"
  from assms have run: "collect (\<lambda>ch. collect (?body ch) (List.enumerate 0 (?msgs ch)))
      (get_or (channels sd) []) = Inr rs"
    by (simp add: get_user_received_code_def Let_def)
  note dec = collect_enumerate_Inr [OF run]
  have "rs = concat (map (\<lambda>ch. concat (map (?per ch) [0..<length (?msgs ch)]))
           (get_or (channels sd) []))"
    by (rule dec(1))
  moreover have "\<forall>ch\<in>set (get_or (channels sd) []). \<forall>i<length (?msgs ch).
       length (?per ch i) \<le> 1 \<and>
       (\<forall>r\<in>set (?per ch i).
          msg_contains_code (?msgs ch ! i) = Some True \<and>
          msg_user (?msgs ch ! i) = Some (rc_from_user r) \<and>
          rc_from_user r \<noteq> user_id \<and>
          msg_text (?msgs ch ! i) = Some (rc_code_snippet r) \<and>
          channel_id ch = Some (rc_channel r) \<and>
          (\<exists>j. i < j \<and> j \<le> i + 3 \<and> j < length (?msgs ch) \<and>
             msg_user (?msgs ch ! j) = Some user_id \<and>
             msg_text (?msgs ch ! j) = Some (rc_acknowledged_by_user r) \<and>
             (\<forall>k. i < k \<and> k < j \<longrightarrow> msg_user (?msgs ch ! k) \<noteq> Some user_id)))"
    using received_of_Inr [OF dec(2)] by blast
  ultimately show ?thesis by (intro exI [of _ ?per] conjI)
qed

theorem received_code_first_acknowledger_witness:
  "get_user_received_code (ex_slack ex_general) ''A'' =
     Inr [\<lparr>rc_channel = ''general'', rc_from_user = ''B'',
       rc_code_snippet = ''```for x in y```'', rc_acknowledged_by_user = ''nice, thanks''\<rparr>] \<and>
   (\<exists>per.
    [\<lparr>rc_channel = ''general'', rc_from_user = ''B'',
       rc_code_snippet = ''```for x in y```'', rc_acknowledged_by_user = ''nice, thanks''\<rparr>]
     = concat (map (\<lambda>ch. concat (map (per ch) [0..<length (get_or (messages ch) [])]))
           (get_or (channels (ex_slack ex_general)) [])) \<and>
    (\<forall>ch\<in>set (get_or (channels (ex_slack ex_general)) []). \<forall>i<length (get_or (messages ch) []).
       length (per ch i) \<le> 1 \<and>
       (\<forall>r\<in>set (per ch i).
          msg_contains_code (get_or (messages ch) [] ! i) = Some True \<and>
          msg_user (get_or (messages ch) [] ! i) = Some (rc_from_user r) \<and>
          rc_from_user r \<noteq> ''A'' \<and>
          msg_text (get_or (messages ch) [] ! i) = Some (rc_code_snippet r) \<and>
          channel_id ch = Some (rc_channel r) \<and>
          (\<exists>j. i < j \<and> j \<le> i + 3 \<and> j < length (get_or (messages ch) []) \<and>
             msg_user (get_or (messages ch) [] ! j) = Some ''A'' \<and>
             msg_text (get_or (messages ch) [] ! j) = Some (rc_acknowledged_by_user r) \<and>
             (\<forall>k. i < k \<and> k < j \<longrightarrow>
                msg_user (get_or (messages ch) [] ! k) \<noteq> Some ''A'')))))"
proof -
  have run: "get_user_received_code (ex_slack ex_general) ''A'' =
     Inr [\<lparr>rc_channel = ''general'', rc_from_user = ''B'',
       rc_code_snippet = ''```for x in y```'', rc_acknowledged_by_user = ''nice, thanks''\<rparr>]"
    by code_simp
  from run received_code_first_acknowledger [OF run] show ?thesis by (rule conjI)
qed

section \<open>Transcript context\<close>

lemma fold_insert_eq: "fold insert xs A = set xs \<union> A"
  by (induction xs arbitrary: A) auto

lemma set_context_range:
  "set (context_range tr context_window idx)
     = {int idx - context_window..int idx + context_window} \<inter> {0..<int (length tr)}"
  by (auto simp: context_range_def Let_def)

lemma fold_included:
  "fold (\<lambda>il acc. case il of (idx, line) \<Rightarrow>
             if line_user line = Some user_id
             then fold insert (context_range tr context_window idx) acc
             else acc) xs A
   = A \<union> (\<Union>il\<in>{il \<in> set xs. line_user (snd il) = Some user_id}.
            set (context_range tr context_window (fst il)))"
proof (induction xs arbitrary: A)
  case Nil
  show ?case by simp
next
  case (Cons x xs)
  obtain idx line where x: "x = (idx, line)" by (cases x)
  show ?case unfolding x
    by (simp add: Cons.IH fold_insert_eq) auto
qed

lemma included_indices_eq_context_union:
  "included_indices tr user_id context_window = context_union tr user_id context_window"
proof -
  have "included_indices tr user_id context_window
      = (\<Union>il\<in>{il \<in> set (List.enumerate 0 tr). line_user (snd il) = Some user_id}.
            set (context_range tr context_window (fst il)))"
    by (simp add: included_indices_def fold_included)
  also have "\<dots> = (\<Union>i\<in>{i \<in> {0..<length tr}. line_user (tr ! i) = Some user_id}.
        set (context_range tr context_window i))"
    by (auto simp: enumerate0_eq_map image_iff)
  finally show ?thesis by (simp add: context_union_def set_context_range)
qed

lemma context_union_bounds:
  "context_union tr user_id radius \<subseteq> {0..<int (length tr)}"
  by (auto simp: context_union_def)

lemma finite_context_union: "finite (context_union tr user_id radius)"
  by (rule finite_subset [OF context_union_bounds]) simp

lemma context_union_nonempty:
  assumes "0 \<le> radius"
  shows "context_union tr user_id radius \<noteq> {} \<longleftrightarrow> (\<exists>l\<in>set tr. line_user l = Some user_id)"
proof
  assume "context_union tr user_id radius \<noteq> {}"
  then obtain i where "i < length tr" "line_user (tr ! i) = Some user_id"
    by (auto simp: context_union_def)
  then show "\<exists>l\<in>set tr. line_user l = Some user_id" by (metis nth_mem)
next
  assume "\<exists>l\<in>set tr. line_user l = Some user_id"
  then obtain i where i: "i < length tr" "line_user (tr ! i) = Some user_id"
    by (auto simp: in_set_conv_nth)
  with assms have "int i \<in> context_union tr user_id radius"
    by (auto simp: context_union_def)
  then show "context_union tr user_id radius \<noteq> {}" by blast
qed


lemma flow_indices_props:
  "sorted_wrt (<) (flow_indices tr user_id context_window)"
  "distinct (flow_indices tr user_id context_window)"
  "set (flow_indices tr user_id context_window) = context_union tr user_id context_window"
  by (simp_all add: flow_indices_def included_indices_eq_context_union finite_context_union)

lemma collect_flow_entry_of_Inr:
  assumes "collect (flow_entry_of tr) is = Inr fl"
    and "\<forall>i\<in>set is. 0 \<le> i \<and> i < int (length tr)"
  shows "list_all2 (\<lambda>i e. line_user (tr ! nat i) = Some (fe_user e) \<and>
           line_text (tr ! nat i) = Some (fe_text e)) is fl"
  using assms
proof (induction "is" arbitrary: fl)
  case Nil
  then show ?case by simp
next
  case (Cons i "is")
  from Cons.prems(1) obtain u v where u: "flow_entry_of tr i = Inr u"
    and v: "collect (flow_entry_of tr) is = Inr v" and fl: "fl = u @ v"
    by (auto simp: and_then_Inr_iff)
  from Cons.prems(2) have "py_nth tr i = Inr (tr ! nat i)"
    by (simp add: py_nth_def)
  with u have "\<exists>a b. line_user (tr ! nat i) = Some a \<and> line_text (tr ! nat i) = Some b \<and>
      u = [\<lparr>fe_user = a, fe_text = b\<rparr>]"
    by (auto simp: flow_entry_of_def req_Inr_iff)
  with Cons.IH [OF v] Cons.prems(2) fl show ?case by auto
qed

lemma meeting_flow_Inr:
  assumes "meeting_flow user_id context_window m = Inr fs"
  shows "if context_union (get_or (transcript m) []) user_id context_window = {} then fs = []
    else \<exists>fl. fs = [\<lparr>cf_meeting_id = meeting_id m, cf_flow = fl\<rparr>] \<and>
      list_all2 (\<lambda>i e. line_user (get_or (transcript m) [] ! nat i) = Some (fe_user e) \<and>
           line_text (get_or (transcript m) [] ! nat i) = Some (fe_text e))
        (flow_indices (get_or (transcript m) []) user_id context_window) fl"
proof (cases "context_union (get_or (transcript m) []) user_id context_window = {}")
  case True
  with assms show ?thesis
    by (simp add: meeting_flow_def Let_def included_indices_eq_context_union)
next
  case False
  let ?tr = "get_or (transcript m) []"
  from False assms obtain fl
    where fl: "collect (flow_entry_of ?tr) (flow_indices ?tr user_id context_window) = Inr fl"
      and fs: "fs = [\<lparr>cf_meeting_id = meeting_id m, cf_flow = fl\<rparr>]"
    by (auto simp: meeting_flow_def Let_def included_indices_eq_context_union flow_indices_def
        split: sum.splits)
  have "\<forall>i\<in>set (flow_indices ?tr user_id context_window). 0 \<le> i \<and> i < int (length ?tr)"
    using context_union_bounds [of ?tr user_id context_window]
    by (auto simp: flow_indices_props)
  from collect_flow_entry_of_Inr [OF fl this] fs False show ?thesis by simp
qed

lemma transcripts_Inr:
  assumes "collect (meeting_flow user_id context_window) ms = Inr flows"
    and "0 \<le> context_window"
  shows "list_all2
     (\<lambda>m f. cf_meeting_id f = meeting_id m \<and>
        list_all2 (\<lambda>i e. line_user (get_or (transcript m) [] ! nat i) = Some (fe_user e) \<and>
             line_text (get_or (transcript m) [] ! nat i) = Some (fe_text e))
          (flow_indices (get_or (transcript m) []) user_id context_window) (cf_flow f))
     (filter (\<lambda>m. \<exists>l\<in>set (get_or (transcript m) []). line_user l = Some user_id) ms)
     flows"
  using assms(1)
proof (induction ms arbitrary: flows)
  case Nil
  then show ?case by simp
next
  case (Cons m ms)
  from Cons.prems obtain u v where u: "meeting_flow user_id context_window m = Inr u"
    and v: "collect (meeting_flow user_id context_window) ms = Inr v" and fl: "flows = u @ v"
    by (auto simp: and_then_Inr_iff)
  from meeting_flow_Inr [OF u] Cons.IH [OF v] fl
    context_union_nonempty [OF assms(2), of "get_or (transcript m) []" user_id]
  show ?case by (auto split: if_splits)
qed


lemma transcripts_return:
  assumes "\<forall>m\<in>set ms. \<forall>l\<in>set (get_or (transcript m) []).
      line_user l \<noteq> None \<and> line_text l \<noteq> None"
  shows "\<not> isl (collect (meeting_flow user_id context_window) ms)"
proof
  assume "isl (collect (meeting_flow user_id context_window) ms)"
  then obtain m where m: "m \<in> set ms" and bad: "isl (meeting_flow user_id context_window m)"
    by (auto simp: isl_collect)
  let ?tr = "get_or (transcript m) []"
  from bad have "isl (collect (flow_entry_of ?tr) (flow_indices ?tr user_id context_window))"
    by (auto simp: meeting_flow_def Let_def flow_indices_def split: if_splits sum.splits)
  then obtain i where i: "i \<in> set (flow_indices ?tr user_id context_window)"
    and e: "isl (flow_entry_of ?tr i)"
    by (auto simp: isl_collect)
  from i context_union_bounds [of ?tr user_id context_window]
  have range: "0 \<le> i \<and> i < int (length ?tr)"
    by (auto simp: flow_indices_props)
  then have nth: "py_nth ?tr i = Inr (?tr ! nat i)" by (simp add: py_nth_def)
  from range have "nat i < length ?tr" by linarith
  then have "?tr ! nat i \<in> set ?tr" by (rule nth_mem)
  with assms m have "line_user (?tr ! nat i) \<noteq> None \<and> line_text (?tr ! nat i) \<noteq> None"
    by blast
  with e nth show False by (auto simp: flow_entry_of_def isl_req)
qed

lemma context_union_negative:
  assumes "radius < 0"
  shows "context_union tr user_id radius = {}"
  using assms by (auto simp: context_union_def)

lemma transcripts_negative:
  assumes "collect (meeting_flow user_id context_window) ms = Inr flows"
    and "context_window < 0"
  shows "flows = []"
  using assms(1)
proof (induction ms arbitrary: flows)
  case Nil
  then show ?case by simp
next
  case (Cons m ms)
  from Cons.prems obtain u v where u: "meeting_flow user_id context_window m = Inr u"
    and v: "collect (meeting_flow user_id context_window) ms = Inr v" and fl: "flows = u @ v"
    by (auto simp: and_then_Inr_iff)
  from meeting_flow_Inr [OF u] context_union_negative [OF assms(2)] have "u = []" by simp
  with Cons.IH [OF v] fl show ?case by simp
qed

text \<open>
  C4, as amended. Let the radius be not negative and let
  \<^verbatim>\<open>get_user_meeting_transcripts_with_context\<close> return. Then the flows returned are, in
  order, exactly one for each meeting in which the target user speaks at least once, with
  that meeting's id, and none for the other meetings. The indices the flow of a meeting is
  built from are strictly increasing, without duplicates, and are exactly the union, over
  every index at which the user speaks, of the indices within the radius of it, clamped to
  the indices of the transcript; the flow holds the user and the text of the lines at these
  indices, in this order. The run returns whenever every line has a user and a text. For a
  negative radius a run that returns returns no flow at all.
\<close>

theorem context_flow_per_meeting:
  "(get_user_meeting_transcripts_with_context transcripts_data user_id context_window
       = Inr flows \<and> 0 \<le> context_window \<longrightarrow>
     list_all2
       (\<lambda>m f. cf_meeting_id f = meeting_id m \<and>
          sorted_wrt (<) (flow_indices (get_or (transcript m) []) user_id context_window) \<and>
          distinct (flow_indices (get_or (transcript m) []) user_id context_window) \<and>
          set (flow_indices (get_or (transcript m) []) user_id context_window)
            = context_union (get_or (transcript m) []) user_id context_window \<and>
          list_all2 (\<lambda>i e. line_user (get_or (transcript m) [] ! nat i) = Some (fe_user e) \<and>
               line_text (get_or (transcript m) [] ! nat i) = Some (fe_text e))
            (flow_indices (get_or (transcript m) []) user_id context_window) (cf_flow f))
       (filter (\<lambda>m. \<exists>l\<in>set (get_or (transcript m) []). line_user l = Some user_id) transcripts_data)
       flows) \<and>
   ((\<forall>m\<in>set transcripts_data. \<forall>l\<in>set (get_or (transcript m) []).
        line_user l \<noteq> None \<and> line_text l \<noteq> None) \<longrightarrow>
     (\<exists>fs. get_user_meeting_transcripts_with_context transcripts_data user_id context_window
        = Inr fs)) \<and>
   (get_user_meeting_transcripts_with_context transcripts_data user_id context_window
       = Inr flows \<and> context_window < 0 \<longrightarrow> flows = [])"
proof (intro conjI impI)
  assume "get_user_meeting_transcripts_with_context transcripts_data user_id context_window
       = Inr flows \<and> 0 \<le> context_window"
  then have "list_all2
     (\<lambda>m f. cf_meeting_id f = meeting_id m \<and>
        list_all2 (\<lambda>i e. line_user (get_or (transcript m) [] ! nat i) = Some (fe_user e) \<and>
             line_text (get_or (transcript m) [] ! nat i) = Some (fe_text e))
          (flow_indices (get_or (transcript m) []) user_id context_window) (cf_flow f))
     (filter (\<lambda>m. \<exists>l\<in>set (get_or (transcript m) []). line_user l = Some user_id)
        transcripts_data)
     flows"
    by (auto simp: get_user_meeting_transcripts_with_context_def intro: transcripts_Inr)
  then show "list_all2
       (\<lambda>m f. cf_meeting_id f = meeting_id m \<and>
          sorted_wrt (<) (flow_indices (get_or (transcript m) []) user_id context_window) \<and>
          distinct (flow_indices (get_or (transcript m) []) user_id context_window) \<and>
          set (flow_indices (get_or (transcript m) []) user_id context_window)
            = context_union (get_or (transcript m) []) user_id context_window \<and>
          list_all2 (\<lambda>i e. line_user (get_or (transcript m) [] ! nat i) = Some (fe_user e) \<and>
               line_text (get_or (transcript m) [] ! nat i) = Some (fe_text e))
            (flow_indices (get_or (transcript m) []) user_id context_window) (cf_flow f))
       (filter (\<lambda>m. \<exists>l\<in>set (get_or (transcript m) []). line_user l = Some user_id) transcripts_data)
       flows"
    by (rule list_all2_mono) (simp add: flow_indices_props)
next
  assume "\<forall>m\<in>set transcripts_data. \<forall>l\<in>set (get_or (transcript m) []).
        line_user l \<noteq> None \<and> line_text l \<noteq> None"
  from transcripts_return [OF this, of user_id context_window]
  show "\<exists>fs. get_user_meeting_transcripts_with_context transcripts_data user_id context_window
        = Inr fs"
    unfolding get_user_meeting_transcripts_with_context_def
    by (cases "collect (meeting_flow user_id context_window) transcripts_data") auto
next
  assume "get_user_meeting_transcripts_with_context transcripts_data user_id context_window
       = Inr flows \<and> context_window < 0"
  then show "flows = []"
    by (auto simp: get_user_meeting_transcripts_with_context_def dest: transcripts_negative)
qed

text \<open>
  C4 as stated has no condition on the radius. With the radius \<open>-1\<close> every range around a
  turn of the user is empty, and a meeting in which the user speaks gets no flow.
\<close>

theorem context_flow_negative_radius_counterexample:
  "line_user (get_or (transcript ex_meeting) [] ! 2) = Some ''A'' \<and>
   get_user_meeting_transcripts_with_context [ex_meeting] ''A'' (- 1) = Inr []"
  by code_simp

theorem context_flow_per_meeting_witness:
  "get_user_meeting_transcripts_with_context [ex_meeting] ''A'' 1
     = Inr [\<lparr>cf_meeting_id = Some ''m1'', cf_flow =
        [\<lparr>fe_user = ''C'', fe_text = ''t1''\<rparr>, \<lparr>fe_user = ''A'', fe_text = ''t2''\<rparr>,
         \<lparr>fe_user = ''B'', fe_text = ''t3''\<rparr>]\<rparr>] \<and>
   flow_indices (get_or (transcript ex_meeting) []) ''A'' 1 = [1, 2, 3] \<and>
   list_all2
       (\<lambda>m f. cf_meeting_id f = meeting_id m \<and>
          sorted_wrt (<) (flow_indices (get_or (transcript m) []) ''A'' 1) \<and>
          distinct (flow_indices (get_or (transcript m) []) ''A'' 1) \<and>
          set (flow_indices (get_or (transcript m) []) ''A'' 1)
            = context_union (get_or (transcript m) []) ''A'' 1 \<and>
          list_all2 (\<lambda>i e. line_user (get_or (transcript m) [] ! nat i) = Some (fe_user e) \<and>
               line_text (get_or (transcript m) [] ! nat i) = Some (fe_text e))
            (flow_indices (get_or (transcript m) []) ''A'' 1) (cf_flow f))
       (filter (\<lambda>m. \<exists>l\<in>set (get_or (transcript m) []). line_user l = Some ''A'') [ex_meeting])
       [\<lparr>cf_meeting_id = Some ''m1'', cf_flow =
        [\<lparr>fe_user = ''C'', fe_text = ''t1''\<rparr>, \<lparr>fe_user = ''A'', fe_text = ''t2''\<rparr>,
         \<lparr>fe_user = ''B'', fe_text = ''t3''\<rparr>]\<rparr>] \<and>
   (\<exists>fs. get_user_meeting_transcripts_with_context [ex_meeting] ''A'' 1 = Inr fs) \<and>
   get_user_meeting_transcripts_with_context [ex_meeting] ''A'' (- 1) = Inr []"
proof -
  have neg: "get_user_meeting_transcripts_with_context [ex_meeting] ''A'' (- 1) = Inr []"
    by code_simp
  have run: "get_user_meeting_transcripts_with_context [ex_meeting] ''A'' 1
     = Inr [\<lparr>cf_meeting_id = Some ''m1'', cf_flow =
        [\<lparr>fe_user = ''C'', fe_text = ''t1''\<rparr>, \<lparr>fe_user = ''A'', fe_text = ''t2''\<rparr>,
         \<lparr>fe_user = ''B'', fe_text = ''t3''\<rparr>]\<rparr>]"
    by code_simp
  have idx: "flow_indices (get_or (transcript ex_meeting) []) ''A'' 1 = [1, 2, 3]"
    by code_simp
  have wf: "\<forall>m\<in>set [ex_meeting]. \<forall>l\<in>set (get_or (transcript m) []).
        line_user l \<noteq> None \<and> line_text l \<noteq> None"
    by (simp add: ex_meeting_def ex_line_def)
  from context_flow_per_meeting [of "[ex_meeting]" "''A''" 1 "[\<lparr>cf_meeting_id = Some ''m1'', cf_flow =
        [\<lparr>fe_user = ''C'', fe_text = ''t1''\<rparr>, \<lparr>fe_user = ''A'', fe_text = ''t2''\<rparr>,
         \<lparr>fe_user = ''B'', fe_text = ''t3''\<rparr>]\<rparr>]"] run wf idx neg
  show ?thesis by simp
qed

section \<open>Personal commits\<close>

lemma user_commit_of_Inr:
  assumes "user_commit_of user_id c = Inr ds"
  shows "if author c = Some user_id
    then \<exists>v1 v2 v3 v4 v5 v6 v7 v8.
          sha c = Some v1 \<and> date c = Some v2 \<and> commit_message c = Some v3 \<and>
          files_changed c = Some v4 \<and> lines_added c = Some v5 \<and>
          lines_deleted c = Some v6 \<and> area c = Some v7 \<and> codediff c = Some v8 \<and>
          ds = [[(''sha'', JStr v1), (''date'', JStr v2), (''message'', JStr v3),
               (''files_changed'', JStrs v4), (''lines_added'', JInt v5),
               (''lines_deleted'', JInt v6), (''area'', JStr v7), (''codediff'', JStr v8)]]
    else ds = []"
  using assms by (auto simp: user_commit_of_def req_Inr_iff split: if_splits)

lemma isl_user_commit_of:
  "isl (user_commit_of user_id c) \<longleftrightarrow>
     author c = Some user_id \<and>
     (sha c = None \<or> date c = None \<or> commit_message c = None \<or> files_changed c = None \<or>
      lines_added c = None \<or> lines_deleted c = None \<or> area c = None \<or> codediff c = None)"
  by (auto simp: user_commit_of_def isl_req)

lemma collect_user_commit_of_Inr:
  assumes "collect (user_commit_of user_id) cs = Inr ds"
  shows "list_all2
       (\<lambda>c d. \<exists>v1 v2 v3 v4 v5 v6 v7 v8.
          sha c = Some v1 \<and> date c = Some v2 \<and> commit_message c = Some v3 \<and>
          files_changed c = Some v4 \<and> lines_added c = Some v5 \<and>
          lines_deleted c = Some v6 \<and> area c = Some v7 \<and> codediff c = Some v8 \<and>
          d = [(''sha'', JStr v1), (''date'', JStr v2), (''message'', JStr v3),
               (''files_changed'', JStrs v4), (''lines_added'', JInt v5),
               (''lines_deleted'', JInt v6), (''area'', JStr v7), (''codediff'', JStr v8)])
       (filter (\<lambda>c. author c = Some user_id) cs) ds"
  using assms
proof (induction cs arbitrary: ds)
  case Nil
  then show ?case by simp
next
  case (Cons c cs)
  from Cons.prems obtain u v where u: "user_commit_of user_id c = Inr u"
    and v: "collect (user_commit_of user_id) cs = Inr v" and ds: "ds = u @ v"
    by (auto simp: and_then_Inr_iff)
  show ?case
  proof (cases "author c = Some user_id")
    case True
    with user_commit_of_Inr [OF u] Cons.IH [OF v] ds show ?thesis by auto
  next
    case False
    with user_commit_of_Inr [OF u] Cons.IH [OF v] ds show ?thesis by simp
  qed
qed

text \<open>
  C5, as amended. When \<^verbatim>\<open>get_user_github_commits\<close> returns, it returns, in source order,
  one dictionary for every commit whose author equals the given user id: the commit's sha,
  date, files_changed, lines_added, lines_deleted, area and codediff under these keys, and
  its commit_message under the key \<^verbatim>\<open>message\<close>; the author is not copied. It returns
  exactly when no commit of the user lacks one of these eight fields.
\<close>

theorem user_commits_copied_and_renamed:
  "(get_user_github_commits gd user_id = Inr ds \<longrightarrow>
     list_all2
       (\<lambda>c d. \<exists>v1 v2 v3 v4 v5 v6 v7 v8.
          sha c = Some v1 \<and> date c = Some v2 \<and> commit_message c = Some v3 \<and>
          files_changed c = Some v4 \<and> lines_added c = Some v5 \<and>
          lines_deleted c = Some v6 \<and> area c = Some v7 \<and> codediff c = Some v8 \<and>
          d = [(''sha'', JStr v1), (''date'', JStr v2), (''message'', JStr v3),
               (''files_changed'', JStrs v4), (''lines_added'', JInt v5),
               (''lines_deleted'', JInt v6), (''area'', JStr v7), (''codediff'', JStr v8)])
       (filter (\<lambda>c. author c = Some user_id) (get_or (commits gd) []))
       ds) \<and>
   ((\<exists>ds. get_user_github_commits gd user_id = Inr ds) \<longleftrightarrow>
     (\<forall>c\<in>set (get_or (commits gd) []). author c = Some user_id \<longrightarrow>
        sha c \<noteq> None \<and> date c \<noteq> None \<and> commit_message c \<noteq> None \<and>
        files_changed c \<noteq> None \<and> lines_added c \<noteq> None \<and> lines_deleted c \<noteq> None \<and>
        area c \<noteq> None \<and> codediff c \<noteq> None))"
proof (intro conjI impI)
  assume "get_user_github_commits gd user_id = Inr ds"
  then show "list_all2
       (\<lambda>c d. \<exists>v1 v2 v3 v4 v5 v6 v7 v8.
          sha c = Some v1 \<and> date c = Some v2 \<and> commit_message c = Some v3 \<and>
          files_changed c = Some v4 \<and> lines_added c = Some v5 \<and>
          lines_deleted c = Some v6 \<and> area c = Some v7 \<and> codediff c = Some v8 \<and>
          d = [(''sha'', JStr v1), (''date'', JStr v2), (''message'', JStr v3),
               (''files_changed'', JStrs v4), (''lines_added'', JInt v5),
               (''lines_deleted'', JInt v6), (''area'', JStr v7), (''codediff'', JStr v8)])
       (filter (\<lambda>c. author c = Some user_id) (get_or (commits gd) []))
       ds"
    unfolding get_user_github_commits_def by (rule collect_user_commit_of_Inr)
next
  have "(\<exists>ds. get_user_github_commits gd user_id = Inr ds)
      \<longleftrightarrow> \<not> isl (get_user_github_commits gd user_id)"
    by (cases "get_user_github_commits gd user_id") auto
  then show "(\<exists>ds. get_user_github_commits gd user_id = Inr ds) \<longleftrightarrow>
     (\<forall>c\<in>set (get_or (commits gd) []). author c = Some user_id \<longrightarrow>
        sha c \<noteq> None \<and> date c \<noteq> None \<and> commit_message c \<noteq> None \<and>
        files_changed c \<noteq> None \<and> lines_added c \<noteq> None \<and> lines_deleted c \<noteq> None \<and>
        area c \<noteq> None \<and> codediff c \<noteq> None)"
    by (auto simp: get_user_github_commits_def isl_collect isl_user_commit_of)
qed

text \<open>
  C5 as stated has every field copied under the same name. The dictionary returned for a
  commit has no key \<^verbatim>\<open>author\<close> and no key \<^verbatim>\<open>commit_message\<close>, which the commit has, and
  a key \<^verbatim>\<open>message\<close>, which the commit has not.
\<close>

theorem user_commits_field_names_counterexample:
  "get_user_github_commits (ex_github [ex_commit ''A'' ''s1'' ''d1'' ''m1'']) ''A''
     = Inr [[(''sha'', JStr ''s1''), (''date'', JStr ''2024-01-01''), (''message'', JStr ''m1''),
       (''files_changed'', JStrs [''a.py'']), (''lines_added'', JInt 1),
       (''lines_deleted'', JInt 0), (''area'', JStr ''core''), (''codediff'', JStr ''d1'')]] \<and>
   map_of (commit_items (ex_commit ''A'' ''s1'' ''d1'' ''m1'')) ''author'' = Some (JStr ''A'') \<and>
   map_of [(''sha'', JStr ''s1''), (''date'', JStr ''2024-01-01''), (''message'', JStr ''m1''),
       (''files_changed'', JStrs [''a.py'']), (''lines_added'', JInt 1),
       (''lines_deleted'', JInt 0), (''area'', JStr ''core''), (''codediff'', JStr ''d1'')] ''author'' = None \<and>
   map_of (commit_items (ex_commit ''A'' ''s1'' ''d1'' ''m1'')) ''commit_message''
     = Some (JStr ''m1'') \<and>
   map_of [(''sha'', JStr ''s1''), (''date'', JStr ''2024-01-01''), (''message'', JStr ''m1''),
       (''files_changed'', JStrs [''a.py'']), (''lines_added'', JInt 1),
       (''lines_deleted'', JInt 0), (''area'', JStr ''core''), (''codediff'', JStr ''d1'')] ''commit_message'' = None \<and>
   map_of (commit_items (ex_commit ''A'' ''s1'' ''d1'' ''m1'')) ''message'' = None \<and>
   map_of [(''sha'', JStr ''s1''), (''date'', JStr ''2024-01-01''), (''message'', JStr ''m1''),
       (''files_changed'', JStrs [''a.py'']), (''lines_added'', JInt 1),
       (''lines_deleted'', JInt 0), (''area'', JStr ''core''), (''codediff'', JStr ''d1'')] ''message'' = Some (JStr ''m1'')"
  by code_simp

theorem user_commits_copied_and_renamed_witness:
  "get_user_github_commits (ex_github [ex_commit ''A'' ''s1'' ''d1'' ''m1'', ex_commit ''B'' ''s2'' ''d2'' ''m2'',
        ex_commit ''A'' ''s3'' ''d3'' ''m3'']) ''A''
     = Inr [[(''sha'', JStr ''s1''), (''date'', JStr ''2024-01-01''), (''message'', JStr ''m1''),
       (''files_changed'', JStrs [''a.py'']), (''lines_added'', JInt 1),
       (''lines_deleted'', JInt 0), (''area'', JStr ''core''), (''codediff'', JStr ''d1'')],
      [(''sha'', JStr ''s3''), (''date'', JStr ''2024-01-01''), (''message'', JStr ''m3''),
       (''files_changed'', JStrs [''a.py'']), (''lines_added'', JInt 1),
       (''lines_deleted'', JInt 0), (''area'', JStr ''core''), (''codediff'', JStr ''d3'')]] \<and>
   list_all2
       (\<lambda>c d. \<exists>v1 v2 v3 v4 v5 v6 v7 v8.
          sha c = Some v1 \<and> date c = Some v2 \<and> commit_message c = Some v3 \<and>
          files_changed c = Some v4 \<and> lines_added c = Some v5 \<and>
          lines_deleted c = Some v6 \<and> area c = Some v7 \<and> codediff c = Some v8 \<and>
          d = [(''sha'', JStr v1), (''date'', JStr v2), (''message'', JStr v3),
               (''files_changed'', JStrs v4), (''lines_added'', JInt v5),
               (''lines_deleted'', JInt v6), (''area'', JStr v7), (''codediff'', JStr v8)])
       (filter (\<lambda>c. author c = Some ''A'') (get_or (commits (ex_github [ex_commit ''A'' ''s1'' ''d1'' ''m1'', ex_commit ''B'' ''s2'' ''d2'' ''m2'',
        ex_commit ''A'' ''s3'' ''d3'' ''m3''])) []))
       [[(''sha'', JStr ''s1''), (''date'', JStr ''2024-01-01''), (''message'', JStr ''m1''),
       (''files_changed'', JStrs [''a.py'']), (''lines_added'', JInt 1),
       (''lines_deleted'', JInt 0), (''area'', JStr ''core''), (''codediff'', JStr ''d1'')],
      [(''sha'', JStr ''s3''), (''date'', JStr ''2024-01-01''), (''message'', JStr ''m3''),
       (''files_changed'', JStrs [''a.py'']), (''lines_added'', JInt 1),
       (''lines_deleted'', JInt 0), (''area'', JStr ''core''), (''codediff'', JStr ''d3'')]] \<and>
   (\<exists>ds. get_user_github_commits (ex_github [ex_commit ''A'' ''s1'' ''d1'' ''m1'', ex_commit ''B'' ''s2'' ''d2'' ''m2'',
        ex_commit ''A'' ''s3'' ''d3'' ''m3'']) ''A'' = Inr ds)"
proof -
  have run: "get_user_github_commits (ex_github [ex_commit ''A'' ''s1'' ''d1'' ''m1'', ex_commit ''B'' ''s2'' ''d2'' ''m2'',
        ex_commit ''A'' ''s3'' ''d3'' ''m3'']) ''A''
     = Inr [[(''sha'', JStr ''s1''), (''date'', JStr ''2024-01-01''), (''message'', JStr ''m1''),
       (''files_changed'', JStrs [''a.py'']), (''lines_added'', JInt 1),
       (''lines_deleted'', JInt 0), (''area'', JStr ''core''), (''codediff'', JStr ''d1'')],
      [(''sha'', JStr ''s3''), (''date'', JStr ''2024-01-01''), (''message'', JStr ''m3''),
       (''files_changed'', JStrs [''a.py'']), (''lines_added'', JInt 1),
       (''lines_deleted'', JInt 0), (''area'', JStr ''core''), (''codediff'', JStr ''d3'')]]"
    by code_simp
  from user_commits_copied_and_renamed [of "(ex_github [ex_commit ''A'' ''s1'' ''d1'' ''m1'', ex_commit ''B'' ''s2'' ''d2'' ''m2'',
        ex_commit ''A'' ''s3'' ''d3'' ''m3''])" "''A''" "[[(''sha'', JStr ''s1''), (''date'', JStr ''2024-01-01''), (''message'', JStr ''m1''),
       (''files_changed'', JStrs [''a.py'']), (''lines_added'', JInt 1),
       (''lines_deleted'', JInt 0), (''area'', JStr ''core''), (''codediff'', JStr ''d1'')],
      [(''sha'', JStr ''s3''), (''date'', JStr ''2024-01-01''), (''message'', JStr ''m3''),
       (''files_changed'', JStrs [''a.py'']), (''lines_added'', JInt 1),
       (''lines_deleted'', JInt 0), (''area'', JStr ''core''), (''codediff'', JStr ''d3'')]]"] run
  show ?thesis by blast
qed

section \<open>When the extractors raise\<close>

lemma isl_collect_enumerate:
  "isl (collect f (List.enumerate 0 xs)) \<longleftrightarrow> (\<exists>i\<in>{0..<length xs}. isl (f (i, xs ! i)))"
  by (auto simp: isl_collect enumerate0_eq_map)

lemma isl_user_message_of:
  "isl (user_message_of user_id ch m) \<longleftrightarrow>
     msg_user m = Some user_id \<and>
     (channel_id ch = None \<or> msg_ts m = None \<or> msg_text m = None)"
  by (cases "channel_id ch"; cases "msg_ts m"; cases "msg_text m")
    (simp_all add: user_message_of_def req_def)

lemma isl_get_user_slack_messages:
  "isl (get_user_slack_messages sd user_id) \<longleftrightarrow>
     (\<exists>ch\<in>set (get_or (channels sd) []). \<exists>m\<in>set (get_or (messages ch) []).
        msg_user m = Some user_id \<and>
        (channel_id ch = None \<or> msg_ts m = None \<or> msg_text m = None))"
  by (simp add: get_user_slack_messages_def isl_collect isl_user_message_of)

lemma isl_get_user_github_commits:
  "isl (get_user_github_commits gd user_id) \<longleftrightarrow>
     (\<exists>c\<in>set (get_or (commits gd) []). author c = Some user_id \<and>
        (sha c = None \<or> date c = None \<or> commit_message c = None \<or>
         files_changed c = None \<or> lines_added c = None \<or> lines_deleted c = None \<or>
         area c = None \<or> codediff c = None))"
  by (simp add: get_user_github_commits_def isl_collect isl_user_commit_of)

lemma isl_scan_follow_ups:
  "isl (scan_follow_ups user_id ch msg fs) \<longleftrightarrow>
     (case find (\<lambda>f. msg_user f = Some user_id) fs of
        None \<Rightarrow> False
      | Some f \<Rightarrow> channel_id ch = None \<or> msg_user msg = None \<or> msg_text msg = None \<or>
          msg_text f = None)"
  by (induction fs) (auto simp: isl_req)

lemma isl_received_of:
  assumes "i < length msgs"
  shows "isl (received_of user_id ch msgs (i, msgs ! i)) \<longleftrightarrow>
     msg_contains_code (msgs ! i) = Some True \<and> msg_user (msgs ! i) \<noteq> Some user_id \<and>
     (case find (\<lambda>f. msg_user f = Some user_id) (take 3 (drop (Suc i) msgs)) of
        None \<Rightarrow> False
      | Some f \<Rightarrow> channel_id ch = None \<or> msg_user (msgs ! i) = None \<or>
          msg_text (msgs ! i) = None \<or> msg_text f = None)"
proof -
  have slice: "py_slice msgs (int i + 1) (int i + 4) = take 3 (drop (Suc i) msgs)"
    using py_slice_window [of 3 i msgs] assms by (simp add: add.commute)
  have flag: "get_or (msg_contains_code (msgs ! i)) False
      \<longleftrightarrow> msg_contains_code (msgs ! i) = Some True"
    by (cases "msg_contains_code (msgs ! i)") auto
  show ?thesis
    by (simp add: received_of_def slice flag isl_scan_follow_ups)
qed

lemma isl_get_user_received_code:
  "isl (get_user_received_code sd user_id) \<longleftrightarrow>
     (\<exists>ch\<in>set (get_or (channels sd) []). \<exists>i\<in>{0..<length (get_or (messages ch) [])}.
        msg_contains_code (get_or (messages ch) [] ! i) = Some True \<and>
        msg_user (get_or (messages ch) [] ! i) \<noteq> Some user_id \<and>
        (case find (\<lambda>f. msg_user f = Some user_id)
                (take 3 (drop (Suc i) (get_or (messages ch) []))) of
           None \<Rightarrow> False
         | Some f \<Rightarrow> channel_id ch = None \<or> msg_user (get_or (messages ch) [] ! i) = None \<or>
             msg_text (get_or (messages ch) [] ! i) = None \<or> msg_text f = None))"
proof -
  let ?msgs = "\<lambda>ch. get_or (messages ch) []"
  let ?inner = "\<lambda>ch. collect (received_of user_id ch (?msgs ch)) (List.enumerate 0 (?msgs ch))"
  have "isl (get_user_received_code sd user_id)
      \<longleftrightarrow> (\<exists>ch\<in>set (get_or (channels sd) []). isl (?inner ch))"
    unfolding get_user_received_code_def Let_def by (rule isl_collect)
  also have "\<dots> \<longleftrightarrow> (\<exists>ch\<in>set (get_or (channels sd) []). \<exists>i\<in>{0..<length (?msgs ch)}.
      isl (received_of user_id ch (?msgs ch) (i, ?msgs ch ! i)))"
    by (simp only: isl_collect_enumerate)
  also have "\<dots> \<longleftrightarrow> (\<exists>ch\<in>set (get_or (channels sd) []). \<exists>i\<in>{0..<length (?msgs ch)}.
        msg_contains_code (?msgs ch ! i) = Some True \<and>
        msg_user (?msgs ch ! i) \<noteq> Some user_id \<and>
        (case find (\<lambda>f. msg_user f = Some user_id) (take 3 (drop (Suc i) (?msgs ch))) of
           None \<Rightarrow> False
         | Some f \<Rightarrow> channel_id ch = None \<or> msg_user (?msgs ch ! i) = None \<or>
             msg_text (?msgs ch ! i) = None \<or> msg_text f = None))"
  proof (intro bex_cong refl)
    fix ch :: channel and i
    assume "i \<in> {0..<length (?msgs ch)}"
    then have "i < length (?msgs ch)" by simp
    from isl_received_of [OF this]
    show "isl (received_of user_id ch (?msgs ch) (i, ?msgs ch ! i)) \<longleftrightarrow>
        msg_contains_code (?msgs ch ! i) = Some True \<and>
        msg_user (?msgs ch ! i) \<noteq> Some user_id \<and>
        (case find (\<lambda>f. msg_user f = Some user_id) (take 3 (drop (Suc i) (?msgs ch))) of
           None \<Rightarrow> False
         | Some f \<Rightarrow> channel_id ch = None \<or> msg_user (?msgs ch ! i) = None \<or>
             msg_text (?msgs ch ! i) = None \<or> msg_text f = None)" .
  qed
  finally show ?thesis .
qed

lemma isl_meeting_flow:
  "isl (meeting_flow user_id context_window m) \<longleftrightarrow>
     (\<exists>i\<in>context_union (get_or (transcript m) []) user_id context_window.
        line_user (get_or (transcript m) [] ! nat i) = None \<or>
        line_text (get_or (transcript m) [] ! nat i) = None)"
proof -
  let ?tr = "get_or (transcript m) []"
  let ?U = "context_union ?tr user_id context_window"
  have entry: "isl (flow_entry_of ?tr i) \<longleftrightarrow>
      line_user (?tr ! nat i) = None \<or> line_text (?tr ! nat i) = None" if "i \<in> ?U" for i
  proof -
    from that context_union_bounds [of ?tr user_id context_window]
    have "0 \<le> i \<and> i < int (length ?tr)" by auto
    then have "py_nth ?tr i = Inr (?tr ! nat i)" by (simp add: py_nth_def)
    then show ?thesis by (auto simp: flow_entry_of_def isl_req)
  qed
  have "isl (meeting_flow user_id context_window m) \<longleftrightarrow>
      ?U \<noteq> {} \<and> isl (collect (flow_entry_of ?tr) (flow_indices ?tr user_id context_window))"
    by (auto simp: meeting_flow_def Let_def flow_indices_def included_indices_eq_context_union
        split: sum.splits)
  also have "\<dots> \<longleftrightarrow> (\<exists>i\<in>?U. isl (flow_entry_of ?tr i))"
    by (auto simp: isl_collect flow_indices_props)
  also have "\<dots> \<longleftrightarrow> (\<exists>i\<in>?U. line_user (?tr ! nat i) = None \<or> line_text (?tr ! nat i) = None)"
    using entry by blast
  finally show ?thesis .
qed


lemma isl_ack_of:
  "isl (ack_of user_id ch snippet f) \<longleftrightarrow>
     msg_user f = None \<or>
     msg_user f \<noteq> Some user_id \<and> (channel_id ch = None \<or> msg_text f = None)"
  by (cases "msg_user f"; cases "channel_id ch"; cases "msg_text f")
    (simp_all add: ack_of_def req_def)

lemma isl_get_user_meeting_transcripts_with_context:
  "isl (get_user_meeting_transcripts_with_context transcripts_data user_id context_window) \<longleftrightarrow>
     (\<exists>m\<in>set transcripts_data.
        \<exists>i\<in>context_union (get_or (transcript m) []) user_id context_window.
          line_user (get_or (transcript m) [] ! nat i) = None \<or>
          line_text (get_or (transcript m) [] ! nat i) = None)"
  by (simp add: get_user_meeting_transcripts_with_context_def isl_collect isl_meeting_flow)

lemma isl_kudos_of:
  "isl (kudos_of user_id context_window ch cs msgs (idx, msg)) \<longleftrightarrow>
     msg_user msg = Some user_id \<and> msg_contains_code msg = Some True \<and>
     (case msg_text msg of
        None \<Rightarrow> True
      | Some snippet \<Rightarrow>
          (\<exists>f\<in>set (py_slice msgs (int idx + 1) (int idx + 1 + context_window)).
             msg_user f = None \<or>
             msg_user f \<noteq> Some user_id \<and> (channel_id ch = None \<or> msg_text f = None)) \<or>
          (\<exists>c\<in>set cs. author c \<noteq> Some user_id \<and>
             sublist (take 30 snippet)
               (get_or (codediff c) '''' @ '' '' @ get_or (commit_message c) '''') \<and>
             (author c = None \<or> sha c = None)))"
proof (cases "msg_user msg = Some user_id \<and> msg_contains_code msg = Some True")
  case False
  then have "\<not> (msg_user msg = Some user_id \<and> get_or (msg_contains_code msg) False)"
    by (cases "msg_contains_code msg") auto
  from kudos_of_skip [OF this] False show ?thesis by auto
next
  case True
  then have trig: "msg_user msg = Some user_id \<and> get_or (msg_contains_code msg) False"
    by simp
  show ?thesis
  proof (cases "msg_text msg")
    case None
    with True trig show ?thesis by (simp add: kudos_of_def req_def)
  next
    case (Some snippet)
    with True trig show ?thesis
      by (simp add: kudos_of_def req_def isl_and_then isl_collect isl_ack_of isl_usage_of
          commit_text_def)
  qed
qed

lemma isl_extract_peer_kudos:
  "isl (extract_peer_kudos sd gd user_id context_window) \<longleftrightarrow>
     (\<exists>ch\<in>set (get_or (channels sd) []). \<exists>idx\<in>{0..<length (get_or (messages ch) [])}.
        msg_user (get_or (messages ch) [] ! idx) = Some user_id \<and>
        msg_contains_code (get_or (messages ch) [] ! idx) = Some True \<and>
        (case msg_text (get_or (messages ch) [] ! idx) of
           None \<Rightarrow> True
         | Some snippet \<Rightarrow>
             (\<exists>f\<in>set (py_slice (get_or (messages ch) []) (int idx + 1)
                         (int idx + 1 + context_window)).
                msg_user f = None \<or>
                msg_user f \<noteq> Some user_id \<and> (channel_id ch = None \<or> msg_text f = None)) \<or>
             (\<exists>c\<in>set (get_or (commits gd) []). author c \<noteq> Some user_id \<and>
                sublist (take 30 snippet)
                  (get_or (codediff c) '''' @ '' '' @ get_or (commit_message c) '''') \<and>
                (author c = None \<or> sha c = None))))"
proof -
  let ?msgs = "\<lambda>ch. get_or (messages ch) []"
  let ?inner = "\<lambda>ch. collect (kudos_of user_id context_window ch (get_or (commits gd) [])
      (?msgs ch)) (List.enumerate 0 (?msgs ch))"
  have "isl (extract_peer_kudos sd gd user_id context_window)
      \<longleftrightarrow> (\<exists>ch\<in>set (get_or (channels sd) []). isl (?inner ch))"
    unfolding extract_peer_kudos_def Let_def by (rule isl_collect)
  also have "\<dots> \<longleftrightarrow> (\<exists>ch\<in>set (get_or (channels sd) []). \<exists>idx\<in>{0..<length (?msgs ch)}.
      isl (kudos_of user_id context_window ch (get_or (commits gd) []) (?msgs ch)
        (idx, ?msgs ch ! idx)))"
    by (simp only: isl_collect_enumerate)
  finally show ?thesis by (simp only: isl_kudos_of)
qed

section \<open>Which error the extractors raise\<close>

lemma req_Inl:
  assumes "req k v f = Inl e"
  shows "v = None \<and> e = KeyError k \<or> (\<exists>x. v = Some x \<and> f x = Inl e)"
  using assms by (cases v) (simp_all add: req_def)

lemma and_then_Inl:
  assumes "and_then a b = Inl e"
  shows "a = Inl e \<or> b = Inl e"
  using assms by (cases a; cases b) simp_all

text \<open>The error of a loop is the error of its body at some element.\<close>

lemma collect_Inl:
  assumes "collect f xs = Inl e"
  shows "\<exists>x\<in>set xs. f x = Inl e"
  using assms
proof (induction xs)
  case Nil
  then show ?case by simp
next
  case (Cons x xs)
  from and_then_Inl [OF Cons.prems [simplified]] Cons.IH show ?case by auto
qed

lemma user_message_of_Inl:
  assumes "user_message_of user_id ch m = Inl e"
  shows "e \<in> KeyError ` {''channel_id'', ''ts'', ''text''}"
  using assms
  by (cases "channel_id ch"; cases "msg_ts m"; cases "msg_text m")
    (simp_all add: user_message_of_def req_def split: if_splits)

lemma user_commit_of_Inl:
  assumes "user_commit_of user_id c = Inl e"
  shows "e \<in> KeyError ` {''sha'', ''date'', ''commit_message'', ''files_changed'',
    ''lines_added'', ''lines_deleted'', ''area'', ''codediff''}"
proof -
  from assms have "req ''sha'' (sha c) (\<lambda>v1.
        req ''date'' (date c) (\<lambda>v2.
        req ''commit_message'' (commit_message c) (\<lambda>v3.
        req ''files_changed'' (files_changed c) (\<lambda>v4.
        req ''lines_added'' (lines_added c) (\<lambda>v5.
        req ''lines_deleted'' (lines_deleted c) (\<lambda>v6.
        req ''area'' (area c) (\<lambda>v7.
        req ''codediff'' (codediff c) (\<lambda>v8.
          Inr [[(''sha'', JStr v1), (''date'', JStr v2), (''message'', JStr v3),
                (''files_changed'', JStrs v4), (''lines_added'', JInt v5),
                (''lines_deleted'', JInt v6), (''area'', JStr v7),
                (''codediff'', JStr v8)]])))))))) = Inl e"
    by (simp add: user_commit_of_def split: if_splits)
  then show ?thesis
    by (auto dest!: req_Inl)
qed

lemma scan_follow_ups_Inl:
  assumes "scan_follow_ups user_id ch msg fs = Inl e"
  shows "e \<in> KeyError ` {''channel_id'', ''user'', ''text''}"
  using assms
proof (induction fs)
  case Nil
  then show ?case by simp
next
  case (Cons f fs)
  show ?case
  proof (cases "msg_user f = Some user_id")
    case True
    with Cons.prems show ?thesis by (auto dest!: req_Inl)
  next
    case False
    with Cons show ?thesis by simp
  qed
qed

lemma received_of_Inl:
  assumes "received_of user_id ch msgs im = Inl e"
  shows "e \<in> KeyError ` {''channel_id'', ''user'', ''text''}"
  using assms
  by (cases im) (auto simp: received_of_def split: if_splits dest: scan_follow_ups_Inl)

lemma meeting_flow_Inl:
  assumes "meeting_flow user_id context_window m = Inl e"
  shows "e \<in> KeyError ` {''user'', ''text''}"
proof -
  let ?tr = "get_or (transcript m) []"
  from assms have "collect (flow_entry_of ?tr) (flow_indices ?tr user_id context_window) = Inl e"
    by (auto simp: meeting_flow_def Let_def flow_indices_def split: if_splits sum.splits)
  from collect_Inl [OF this] obtain i
    where i: "i \<in> set (flow_indices ?tr user_id context_window)"
      and e: "flow_entry_of ?tr i = Inl e"
    by blast
  from i context_union_bounds [of ?tr user_id context_window]
  have "0 \<le> i \<and> i < int (length ?tr)" by (auto simp: flow_indices_props)
  then have "py_nth ?tr i = Inr (?tr ! nat i)" by (simp add: py_nth_def)
  with e show ?thesis by (auto simp: flow_entry_of_def dest!: req_Inl)
qed

lemma ack_of_Inl:
  assumes "ack_of user_id ch snippet f = Inl e"
  shows "e \<in> KeyError ` {''user'', ''channel_id'', ''text''}"
  using assms
  by (cases "msg_user f"; cases "channel_id ch"; cases "msg_text f")
    (simp_all add: ack_of_def req_def split: if_splits)

lemma usage_of_Inl:
  assumes "usage_of user_id snippet c = Inl e"
  shows "e \<in> KeyError ` {''author'', ''sha''}"
  using assms
  by (cases "author c"; cases "sha c") (simp_all add: usage_of_def req_def split: if_splits)

lemma kudos_of_Inl:
  assumes "kudos_of user_id context_window ch cs msgs im = Inl e"
  shows "e \<in> KeyError ` {''text'', ''user'', ''channel_id'', ''author'', ''sha''}"
proof -
  obtain idx msg where im: "im = (idx, msg)" by (cases im)
  from assms im have r: "req ''text'' (msg_text msg) (\<lambda>snippet.
            and_then
              (collect (ack_of user_id ch snippet)
                 (py_slice msgs (int idx + 1) (int idx + 1 + context_window)))
              (collect (usage_of user_id snippet) cs)) = Inl e"
    by (simp add: kudos_of_def split: if_splits)
  from req_Inl [OF r] show ?thesis
  proof
    assume "msg_text msg = None \<and> e = KeyError ''text''"
    then show ?thesis by simp
  next
    assume "\<exists>snippet. msg_text msg = Some snippet \<and>
      and_then
        (collect (ack_of user_id ch snippet)
           (py_slice msgs (int idx + 1) (int idx + 1 + context_window)))
        (collect (usage_of user_id snippet) cs) = Inl e"
    then obtain snippet where "and_then
        (collect (ack_of user_id ch snippet)
           (py_slice msgs (int idx + 1) (int idx + 1 + context_window)))
        (collect (usage_of user_id snippet) cs) = Inl e"
      by blast
    from and_then_Inl [OF this] show ?thesis
    proof
      assume "collect (ack_of user_id ch snippet)
           (py_slice msgs (int idx + 1) (int idx + 1 + context_window)) = Inl e"
      from collect_Inl [OF this] obtain f where "ack_of user_id ch snippet f = Inl e" by blast
      from ack_of_Inl [OF this] show ?thesis by auto
    next
      assume "collect (usage_of user_id snippet) cs = Inl e"
      from collect_Inl [OF this] obtain c where "usage_of user_id snippet c = Inl e" by blast
      from usage_of_Inl [OF this] show ?thesis by auto
    qed
  qed
qed


lemma get_user_slack_messages_Inl:
  assumes "get_user_slack_messages sd user_id = Inl e"
  shows "e \<in> KeyError ` {''channel_id'', ''ts'', ''text''}"
proof -
  from collect_Inl [OF assms [unfolded get_user_slack_messages_def]] obtain ch
    where "collect (user_message_of user_id ch) (get_or (messages ch) []) = Inl e" by blast
  from collect_Inl [OF this] obtain m where "user_message_of user_id ch m = Inl e" by blast
  then show ?thesis by (rule user_message_of_Inl)
qed

lemma get_user_github_commits_Inl:
  assumes "get_user_github_commits gd user_id = Inl e"
  shows "e \<in> KeyError ` {''sha'', ''date'', ''commit_message'', ''files_changed'',
    ''lines_added'', ''lines_deleted'', ''area'', ''codediff''}"
proof -
  from collect_Inl [OF assms [unfolded get_user_github_commits_def]] obtain c
    where "user_commit_of user_id c = Inl e" by blast
  then show ?thesis by (rule user_commit_of_Inl)
qed

lemma get_user_received_code_Inl:
  assumes "get_user_received_code sd user_id = Inl e"
  shows "e \<in> KeyError ` {''channel_id'', ''user'', ''text''}"
proof -
  from collect_Inl [OF assms [unfolded get_user_received_code_def Let_def]] obtain ch
    where "collect (received_of user_id ch (get_or (messages ch) []))
      (List.enumerate 0 (get_or (messages ch) [])) = Inl e" by blast
  from collect_Inl [OF this] obtain im
    where "received_of user_id ch (get_or (messages ch) []) im = Inl e" by blast
  then show ?thesis by (rule received_of_Inl)
qed

lemma get_user_meeting_transcripts_with_context_Inl:
  assumes "get_user_meeting_transcripts_with_context transcripts_data user_id radius = Inl e"
  shows "e \<in> KeyError ` {''user'', ''text''}"
proof -
  from collect_Inl [OF assms [unfolded get_user_meeting_transcripts_with_context_def]] obtain m
    where "meeting_flow user_id radius m = Inl e" by blast
  then show ?thesis by (rule meeting_flow_Inl)
qed

lemma extract_peer_kudos_Inl:
  assumes "extract_peer_kudos sd gd user_id context_window = Inl e"
  shows "e \<in> KeyError ` {''text'', ''user'', ''channel_id'', ''author'', ''sha''}"
proof -
  from collect_Inl [OF assms [unfolded extract_peer_kudos_def Let_def]] obtain ch
    where "collect (kudos_of user_id context_window ch (get_or (commits gd) [])
        (get_or (messages ch) [])) (List.enumerate 0 (get_or (messages ch) [])) = Inl e"
    by blast
  from collect_Inl [OF this] obtain im
    where "kudos_of user_id context_window ch (get_or (commits gd) [])
        (get_or (messages ch) []) im = Inl e" by blast
  then show ?thesis by (rule kudos_of_Inl)
qed

text \<open>
  C6, as amended. Raising is the only way an extractor reacts to a record that lacks a
  field read with \<open>d[k]\<close>, and it raises exactly in these cases, returning nothing:
  \<^item> \<^verbatim>\<open>get_user_slack_messages\<close>: a message of the user lacks its ts or text, or its
    channel lacks the channel id;
  \<^item> \<^verbatim>\<open>get_user_github_commits\<close>: a commit of the user lacks one of the eight copied
    fields;
  \<^item> \<^verbatim>\<open>get_user_received_code\<close>: a message of another author (or of none) with a true
    contains-code flag has a first message of the user among the next three, and the
    channel id, the trigger's user or text, or that acknowledgment's text is missing;
  \<^item> \<^verbatim>\<open>get_user_meeting_transcripts_with_context\<close>: a line at an index within the radius
    of a turn of the user lacks its user or text (a missing meeting id never raises);
  \<^item> \<^verbatim>\<open>extract_peer_kudos\<close>: a message of the user with a true contains-code flag lacks
    its text, or a message of its window lacks its user, or a message of its window by
    another author lacks its text or the channel lacks its id, or a commit of another
    author (or of none) that matches the snippet lacks its author or sha.
  A missing contains-code flag counts as false, a missing diff body or commit message as the
  empty string, a missing collection as empty: none of them is among the conditions.
  The error raised is always a \<^verbatim>\<open>KeyError\<close>, never another error, and it names one of the keys
  that the extractor reads with \<open>d[k]\<close>; reading an absent key \<open>k\<close> raises \<open>KeyError k\<close>.
\<close>

theorem extractors_raise_on_missing_emitted_fields:
  "(isl (get_user_slack_messages sd user_id) \<longleftrightarrow>
     (\<exists>ch\<in>set (get_or (channels sd) []). \<exists>m\<in>set (get_or (messages ch) []).
        msg_user m = Some user_id \<and>
        (channel_id ch = None \<or> msg_ts m = None \<or> msg_text m = None))) \<and>
   (isl (get_user_github_commits gd user_id) \<longleftrightarrow>
     (\<exists>c\<in>set (get_or (commits gd) []). author c = Some user_id \<and>
        (sha c = None \<or> date c = None \<or> commit_message c = None \<or>
         files_changed c = None \<or> lines_added c = None \<or> lines_deleted c = None \<or>
         area c = None \<or> codediff c = None))) \<and>
   (isl (get_user_received_code sd user_id) \<longleftrightarrow>
     (\<exists>ch\<in>set (get_or (channels sd) []). \<exists>i\<in>{0..<length (get_or (messages ch) [])}.
        msg_contains_code (get_or (messages ch) [] ! i) = Some True \<and>
        msg_user (get_or (messages ch) [] ! i) \<noteq> Some user_id \<and>
        (case find (\<lambda>f. msg_user f = Some user_id)
                (take 3 (drop (Suc i) (get_or (messages ch) []))) of
           None \<Rightarrow> False
         | Some f \<Rightarrow> channel_id ch = None \<or> msg_user (get_or (messages ch) [] ! i) = None \<or>
             msg_text (get_or (messages ch) [] ! i) = None \<or> msg_text f = None))) \<and>
   (isl (get_user_meeting_transcripts_with_context transcripts_data user_id radius) \<longleftrightarrow>
     (\<exists>m\<in>set transcripts_data.
        \<exists>i\<in>context_union (get_or (transcript m) []) user_id radius.
          line_user (get_or (transcript m) [] ! nat i) = None \<or>
          line_text (get_or (transcript m) [] ! nat i) = None)) \<and>
   (isl (extract_peer_kudos sd gd user_id context_window) \<longleftrightarrow>
     (\<exists>ch\<in>set (get_or (channels sd) []). \<exists>idx\<in>{0..<length (get_or (messages ch) [])}.
        msg_user (get_or (messages ch) [] ! idx) = Some user_id \<and>
        msg_contains_code (get_or (messages ch) [] ! idx) = Some True \<and>
        (case msg_text (get_or (messages ch) [] ! idx) of
           None \<Rightarrow> True
         | Some snippet \<Rightarrow>
             (\<exists>f\<in>set (py_slice (get_or (messages ch) []) (int idx + 1)
                         (int idx + 1 + context_window)).
                msg_user f = None \<or>
                msg_user f \<noteq> Some user_id \<and> (channel_id ch = None \<or> msg_text f = None)) \<or>
             (\<exists>c\<in>set (get_or (commits gd) []). author c \<noteq> Some user_id \<and>
                sublist (take 30 snippet)
                  (get_or (codediff c) '''' @ '' '' @ get_or (commit_message c) '''') \<and>
                (author c = None \<or> sha c = None))))) \<and>
   (\<forall>e. get_user_slack_messages sd user_id = Inl e \<longrightarrow>
      e \<in> KeyError ` {''channel_id'', ''ts'', ''text''}) \<and>
   (\<forall>e. get_user_github_commits gd user_id = Inl e \<longrightarrow>
      e \<in> KeyError ` {''sha'', ''date'', ''commit_message'', ''files_changed'',
        ''lines_added'', ''lines_deleted'', ''area'', ''codediff''}) \<and>
   (\<forall>e. get_user_received_code sd user_id = Inl e \<longrightarrow>
      e \<in> KeyError ` {''channel_id'', ''user'', ''text''}) \<and>
   (\<forall>e. get_user_meeting_transcripts_with_context transcripts_data user_id radius = Inl e \<longrightarrow>
      e \<in> KeyError ` {''user'', ''text''}) \<and>
   (\<forall>e. extract_peer_kudos sd gd user_id context_window = Inl e \<longrightarrow>
      e \<in> KeyError ` {''text'', ''user'', ''channel_id'', ''author'', ''sha''}) \<and>
   (\<forall>k. req k None f = Inl (KeyError k))"
proof -
  have k1: "\<forall>e. get_user_slack_messages sd user_id = Inl e \<longrightarrow>
      e \<in> KeyError ` {''channel_id'', ''ts'', ''text''}"
    by (blast intro: get_user_slack_messages_Inl)
  have k2: "\<forall>e. get_user_github_commits gd user_id = Inl e \<longrightarrow>
      e \<in> KeyError ` {''sha'', ''date'', ''commit_message'', ''files_changed'',
        ''lines_added'', ''lines_deleted'', ''area'', ''codediff''}"
    by (blast intro: get_user_github_commits_Inl)
  have k3: "\<forall>e. get_user_received_code sd user_id = Inl e \<longrightarrow>
      e \<in> KeyError ` {''channel_id'', ''user'', ''text''}"
    by (blast intro: get_user_received_code_Inl)
  have k4: "\<forall>e. get_user_meeting_transcripts_with_context transcripts_data user_id radius
        = Inl e \<longrightarrow> e \<in> KeyError ` {''user'', ''text''}"
    by (blast intro: get_user_meeting_transcripts_with_context_Inl)
  have k5: "\<forall>e. extract_peer_kudos sd gd user_id context_window = Inl e \<longrightarrow>
      e \<in> KeyError ` {''text'', ''user'', ''channel_id'', ''author'', ''sha''}"
    by (blast intro: extract_peer_kudos_Inl)
  have k6: "\<forall>k. req k None f = Inl (KeyError k)"
    by (simp add: req_def)
  show ?thesis
    by (intro conjI isl_get_user_slack_messages isl_get_user_github_commits
        isl_get_user_received_code isl_get_user_meeting_transcripts_with_context
        isl_extract_peer_kudos k1 k2 k3 k4 k5 k6)
qed

text \<open>
  C6 as stated covers every extractor and every emitted field. The meeting id is emitted in
  a flow and read with \<open>meeting.get\<close>: a meeting without an id gets a flow without one and
  nothing is raised.
\<close>

theorem missing_meeting_id_counterexample:
  "meeting_id ex_anon_meeting = None \<and>
   get_user_meeting_transcripts_with_context [ex_anon_meeting] ''A'' 2
     = Inr [\<lparr>cf_meeting_id = None, cf_flow = [\<lparr>fe_user = ''A'', fe_text = ''hi''\<rparr>]\<rparr>]"
  by code_simp

theorem extractors_raise_on_missing_emitted_fields_witness:
  "isl (get_user_slack_messages ex_bad_slack ''A'') \<and>
   isl (get_user_github_commits ex_bad_github ''A'') \<and>
   isl (get_user_received_code ex_bad_slack ''A'') \<and>
   isl (get_user_meeting_transcripts_with_context [ex_bad_meeting] ''A'' 2) \<and>
   isl (extract_peer_kudos ex_bad_slack ex_bad_github ''A'' 3) \<and>
   get_user_slack_messages ex_bad_slack ''A'' = Inl (KeyError ''text'') \<and>
   KeyError ''text'' \<in> KeyError ` {''channel_id'', ''ts'', ''text''} \<and>
   get_user_github_commits ex_bad_github ''A'' = Inl (KeyError ''date'') \<and>
   KeyError ''date'' \<in> KeyError ` {''sha'', ''date'', ''commit_message'', ''files_changed'',
        ''lines_added'', ''lines_deleted'', ''area'', ''codediff''} \<and>
   get_user_received_code ex_bad_slack ''A'' = Inl (KeyError ''text'') \<and>
   KeyError ''text'' \<in> KeyError ` {''channel_id'', ''user'', ''text''} \<and>
   get_user_meeting_transcripts_with_context [ex_bad_meeting] ''A'' 2 = Inl (KeyError ''text'') \<and>
   KeyError ''text'' \<in> KeyError ` {''user'', ''text''} \<and>
   extract_peer_kudos ex_bad_slack ex_bad_github ''A'' 3 = Inl (KeyError ''text'') \<and>
   KeyError ''text'' \<in> KeyError ` {''text'', ''user'', ''channel_id'', ''author'', ''sha''}"
proof -
  note T = extractors_raise_on_missing_emitted_fields
    [where sd = ex_bad_slack and user_id = "''A''" and gd = ex_bad_github
       and transcripts_data = "[ex_bad_meeting]" and radius = 2 and context_window = 3]
  have 1: "isl (get_user_slack_messages ex_bad_slack ''A'')"
    unfolding T [THEN conjunct1] by code_simp
  have 2: "isl (get_user_github_commits ex_bad_github ''A'')"
    unfolding T [THEN conjunct2, THEN conjunct1] by code_simp
  have 3: "isl (get_user_received_code ex_bad_slack ''A'')"
    unfolding T [THEN conjunct2, THEN conjunct2, THEN conjunct1] by code_simp
  have 4: "isl (get_user_meeting_transcripts_with_context [ex_bad_meeting] ''A'' 2)"
    unfolding T [THEN conjunct2, THEN conjunct2, THEN conjunct2, THEN conjunct1] by code_simp
  have 5: "isl (extract_peer_kudos ex_bad_slack ex_bad_github ''A'' 3)"
    unfolding T [THEN conjunct2, THEN conjunct2, THEN conjunct2, THEN conjunct2, THEN conjunct1]
    by code_simp
  have e1: "get_user_slack_messages ex_bad_slack ''A'' = Inl (KeyError ''text'')"
    by code_simp
  have e2: "get_user_github_commits ex_bad_github ''A'' = Inl (KeyError ''date'')"
    by code_simp
  have e3: "get_user_received_code ex_bad_slack ''A'' = Inl (KeyError ''text'')"
    by code_simp
  have e4: "get_user_meeting_transcripts_with_context [ex_bad_meeting] ''A'' 2
      = Inl (KeyError ''text'')"
    by code_simp
  have e5: "extract_peer_kudos ex_bad_slack ex_bad_github ''A'' 3 = Inl (KeyError ''text'')"
    by code_simp
  from T e1 have m1: "KeyError ''text'' \<in> KeyError ` {''channel_id'', ''ts'', ''text''}"
    by blast
  from T e2 have m2: "KeyError ''date'' \<in> KeyError ` {''sha'', ''date'', ''commit_message'',
        ''files_changed'', ''lines_added'', ''lines_deleted'', ''area'', ''codediff''}"
    by blast
  from T e3 have m3: "KeyError ''text'' \<in> KeyError ` {''channel_id'', ''user'', ''text''}"
    by blast
  from T e4 have m4: "KeyError ''text'' \<in> KeyError ` {''user'', ''text''}"
    by blast
  from T e5 have m5: "KeyError ''text'' \<in> KeyError ` {''text'', ''user'', ''channel_id'',
        ''author'', ''sha''}"
    by blast
  from 1 2 3 4 5 e1 m1 e2 m2 e3 m3 e4 m4 e5 m5 show ?thesis by (intro conjI)
qed

end
